theory Spec2Isabelle
  imports Complex_Main "HOL-Library.Word" "HOL-Library.AList"
begin

unbundle bit_operations_syntax

section \<open>Data model (server/types.ts)\<close>

text \<open>
  JavaScript numbers are modelled as \<open>real\<close> in the geometric part of the
  development: rounding of IEEE doubles is not modelled there. The special values
  NaN and the infinities, and the 32-bit floats of the wire format, are modelled in
  the sections on the INPUT handler and on the wire codec.

  A \<open>Map\<close> of the source is an association list in insertion order (the order
  in which JavaScript iterates it); \<open>AList.update\<close> overwrites in place or appends,
  as \<open>Map.set\<close> does.
\<close>

record vector3 =
  vx :: real
  vy :: real
  vz :: real

record vector2 =
  mx :: real
  mz :: real

datatype obstacle_type =
  Wall | Hill | Tree | HouseWall | Ruins | Fence | Tower | Crate | Barricade | Rock
  | Shed | Boundary | TreeFoliage

text \<open>The optional decoration fields of an obstacle (trunk and foliage radius,
  foliage colour) are only forwarded to clients and are left out.\<close>

record obstacle =
  opos :: vector3
  osize :: vector3
  otype :: obstacle_type

record entity =
  eid :: nat
  position :: vector3
  velocity :: vector3
  rotation :: real
  pitch :: real
  isPlayer :: bool
  hp :: int
  maxHp :: int

text \<open>A cell key is the string \<open>cellX,cellZ\<close> in the source; the pair of the two
  integers stands for it (the decimal rendering of a pair of integers is injective).\<close>

type_synonym cellkey = "int \<times> int"

record gridcell =
  cellObstacles :: "obstacle list"
  cellEntities :: "nat set"

record spatialGrid =
  gridSize :: real
  cellSize :: real
  cells :: "(cellkey \<times> gridcell) list"

record clientConnection =
  cid :: nat
  losMode :: bool
  viewDistance :: real
  moveDirection :: vector2
  shooting :: bool
  lastShotTime :: int

record bullet =
  bid :: nat
  ownerId :: nat
  bposition :: vector3
  direction :: vector3
  speed :: real
  damage :: int
  createdAt :: int

section \<open>Spatial grid (server/spatial.ts)\<close>

definition TERRAIN_SIZE :: real where "TERRAIN_SIZE = 2000"
definition GRID_SIZE :: real where "GRID_SIZE = 400"
definition CELL_SIZE :: real where "CELL_SIZE = TERRAIN_SIZE / GRID_SIZE"
definition HALF_TERRAIN :: real where "HALF_TERRAIN = TERRAIN_SIZE / 2"
definition INV_CELL_SIZE :: real where "INV_CELL_SIZE = 1 / CELL_SIZE"

definition getCellCoords :: "real \<Rightarrow> real \<Rightarrow> int \<times> int" where
  "getCellCoords x z =
     (\<lfloor>(x + HALF_TERRAIN) * INV_CELL_SIZE\<rfloor>, \<lfloor>(z + HALF_TERRAIN) * INV_CELL_SIZE\<rfloor>)"

definition getCellKey :: "real \<Rightarrow> real \<Rightarrow> cellkey" where
  "getCellKey x z =
     (let cellX = \<lfloor>(x + HALF_TERRAIN) * INV_CELL_SIZE\<rfloor>;
          cellZ = \<lfloor>(z + HALF_TERRAIN) * INV_CELL_SIZE\<rfloor>
      in (cellX, cellZ))"

definition getOccupiedCells :: "obstacle \<Rightarrow> cellkey list" where
  "getOccupiedCells ob =
     (let halfX = vx (osize ob) / 2;
          halfZ = vz (osize ob) / 2;
          minX = vx (opos ob) - halfX;
          maxX = vx (opos ob) + halfX;
          minZ = vz (opos ob) - halfZ;
          maxZ = vz (opos ob) + halfZ;
          minCellX = \<lfloor>(minX + TERRAIN_SIZE / 2) / CELL_SIZE\<rfloor>;
          maxCellX = \<lfloor>(maxX + TERRAIN_SIZE / 2) / CELL_SIZE\<rfloor>;
          minCellZ = \<lfloor>(minZ + TERRAIN_SIZE / 2) / CELL_SIZE\<rfloor>;
          maxCellZ = \<lfloor>(maxZ + TERRAIN_SIZE / 2) / CELL_SIZE\<rfloor>
      in concat (map (\<lambda>x. map (\<lambda>z. (x, z)) [minCellZ..maxCellZ]) [minCellX..maxCellX]))"

definition emptyCell :: gridcell where
  "emptyCell = \<lparr>cellObstacles = [], cellEntities = {}\<rparr>"

text \<open>The body of the inner loop of \<open>createSpatialGrid\<close>: create the cell when it is
  missing, then push the obstacle.\<close>

definition pushObstacle :: "obstacle \<Rightarrow> (cellkey \<times> gridcell) list \<Rightarrow> cellkey
    \<Rightarrow> (cellkey \<times> gridcell) list" where
  "pushObstacle ob cs cellKey =
     (let cs1 = (if map_of cs cellKey = None then AList.update cellKey emptyCell cs else cs)
      in case map_of cs1 cellKey of
           None \<Rightarrow> cs1
         | Some c \<Rightarrow> AList.update cellKey (c\<lparr>cellObstacles := cellObstacles c @ [ob]\<rparr>) cs1)"

definition createSpatialGrid :: "obstacle list \<Rightarrow> spatialGrid" where
  "createSpatialGrid obs =
     \<lparr>gridSize = GRID_SIZE, cellSize = CELL_SIZE,
      cells = foldl (\<lambda>cs ob. foldl (pushObstacle ob) cs (getOccupiedCells ob)) [] obs\<rparr>"

text \<open>The packed key of the cell an entity is recorded in, and its conversion back.
  JavaScript's \<open>%\<close> takes the sign of the dividend.\<close>

definition js_rem :: "int \<Rightarrow> int \<Rightarrow> int" where
  "js_rem a b = sgn a * (\<bar>a\<bar> mod \<bar>b\<bar>)"

definition getPackedCellKey :: "real \<Rightarrow> real \<Rightarrow> int" where
  "getPackedCellKey x z =
     (let cellX = \<lfloor>(x + HALF_TERRAIN) * INV_CELL_SIZE\<rfloor>;
          cellZ = \<lfloor>(z + HALF_TERRAIN) * INV_CELL_SIZE\<rfloor>
      in cellX * 10000 + cellZ)"

definition packedToString :: "int \<Rightarrow> cellkey" where
  "packedToString packed =
     (let cellX = \<lfloor>real_of_int packed / 10000\<rfloor>;
          cellZ = js_rem packed 10000
      in (cellX, cellZ))"

text \<open>The module keeps \<open>entityCellsPacked\<close>, the packed key per entity id, beside the
  grid; the two together are the state that the entity operations change.\<close>

record gridState =
  grid :: spatialGrid
  entityCellsPacked :: "nat \<rightharpoonup> int"

definition cellDelete :: "cellkey \<Rightarrow> nat \<Rightarrow> (cellkey \<times> gridcell) list
    \<Rightarrow> (cellkey \<times> gridcell) list" where
  "cellDelete k entityId cs =
     (case map_of cs k of
        None \<Rightarrow> cs
      | Some c \<Rightarrow> AList.update k (c\<lparr>cellEntities := cellEntities c - {entityId}\<rparr>) cs)"

definition cellAdd :: "cellkey \<Rightarrow> nat \<Rightarrow> (cellkey \<times> gridcell) list
    \<Rightarrow> (cellkey \<times> gridcell) list" where
  "cellAdd k entityId cs =
     (let cs1 = (if map_of cs k = None then AList.update k emptyCell cs else cs)
      in case map_of cs1 k of
           None \<Rightarrow> cs1
         | Some c \<Rightarrow> AList.update k (c\<lparr>cellEntities := insert entityId (cellEntities c)\<rparr>) cs1)"

text \<open>\<open>updateEntityInGrid(grid, entityId, oldPos, newPos)\<close>; the source never reads
  \<open>oldPos\<close> (every caller passes null), so the model has no such argument. Here the
  coordinates are numbers and the packed keys integers, which is what the claims about a
  single move of a player or a bullet need; \<open>jsUpdateEntityInGrid\<close> below is the same
  function on JavaScript numbers, where a coordinate can be NaN and \<open>===\<close> on a NaN key
  is false; the two agree on numbers (\<open>jsUpdateEntityInGrid_finite\<close>).\<close>

definition updateEntityInGrid :: "gridState \<Rightarrow> nat \<Rightarrow> vector3 \<Rightarrow> gridState" where
  "updateEntityInGrid s entityId newPos =
     (let newPacked = getPackedCellKey (vx newPos) (vz newPos);
          oldPacked = entityCellsPacked s entityId
      in if oldPacked = Some newPacked then s
         else
           let newKey = packedToString newPacked;
               cs1 = (case oldPacked of
                        None \<Rightarrow> cells (grid s)
                      | Some p \<Rightarrow> cellDelete (packedToString p) entityId (cells (grid s)));
               cs2 = cellAdd newKey entityId cs1
           in s\<lparr>grid := (grid s)\<lparr>cells := cs2\<rparr>,
                entityCellsPacked := (entityCellsPacked s)(entityId \<mapsto> newPacked)\<rparr>)"

definition removeEntityFromGrid :: "gridState \<Rightarrow> nat \<Rightarrow> gridState" where
  "removeEntityFromGrid s entityId =
     (case entityCellsPacked s entityId of
        None \<Rightarrow> s
      | Some packed \<Rightarrow>
          s\<lparr>grid := (grid s)\<lparr>cells := cellDelete (packedToString packed) entityId (cells (grid s))\<rparr>,
            entityCellsPacked := (entityCellsPacked s)(entityId := None)\<rparr>)"

text \<open>\<open>Set.add\<close> on a set kept in insertion order.\<close>

definition setAdd :: "'a \<Rightarrow> 'a list \<Rightarrow> 'a list" where
  "setAdd k ks = (if k \<in> set ks then ks else ks @ [k])"

definition getCellsAlongRay :: "vector3 \<Rightarrow> vector3 \<Rightarrow> cellkey list" where
  "getCellsAlongRay start end' =
     (let dx = vx end' - vx start;
          dz = vz end' - vz start;
          distance = sqrt (dx * dx + dz * dz)
      in if distance < 0.001 then [getCellKey (vx start) (vz start)]
         else
           let steps = \<lceil>distance / CELL_SIZE\<rceil> + 1
           in foldl (\<lambda>cs i.
                  let t = real_of_int i / real_of_int steps;
                      x = vx start + dx * t;
                      z = vz start + dz * t
                  in setAdd (getCellKey x z) cs) [] [0..steps])"

definition rayIntersectsBox :: "vector3 \<Rightarrow> vector3 \<Rightarrow> vector3 \<Rightarrow> vector3 \<Rightarrow> bool" where
  "rayIntersectsBox rayStart rayEnd boxCenter boxSize =
     (let dX = vx rayEnd - vx rayStart;
          dY = vy rayEnd - vy rayStart;
          dZ = vz rayEnd - vz rayStart;
          rayLength = sqrt (dX * dX + dY * dY + dZ * dZ)
      in if rayLength < 0.001 then False
         else
           let dirX = dX / rayLength;
               dirY = dY / rayLength;
               dirZ = dZ / rayLength;
               minX = vx boxCenter - vx boxSize / 2;
               minY = vy boxCenter - vy boxSize / 2;
               minZ = vz boxCenter - vz boxSize / 2;
               maxX = vx boxCenter + vx boxSize / 2;
               maxY = vy boxCenter + vy boxSize / 2;
               maxZ = vz boxCenter + vz boxSize / 2;
               tMin0 = 0;
               tMax0 = rayLength
           in if \<not> \<bar>dirX\<bar> > 0.0001 \<and> (vx rayStart < minX \<or> vx rayStart > maxX) then False
              else
                let tMin1 = (if \<bar>dirX\<bar> > 0.0001
                             then max tMin0 (min ((minX - vx rayStart) / dirX) ((maxX - vx rayStart) / dirX))
                             else tMin0);
                    tMax1 = (if \<bar>dirX\<bar> > 0.0001
                             then min tMax0 (max ((minX - vx rayStart) / dirX) ((maxX - vx rayStart) / dirX))
                             else tMax0)
                in if \<not> \<bar>dirY\<bar> > 0.0001 \<and> (vy rayStart < minY \<or> vy rayStart > maxY) then False
                   else
                     let tMin2 = (if \<bar>dirY\<bar> > 0.0001
                                  then max tMin1 (min ((minY - vy rayStart) / dirY) ((maxY - vy rayStart) / dirY))
                                  else tMin1);
                         tMax2 = (if \<bar>dirY\<bar> > 0.0001
                                  then min tMax1 (max ((minY - vy rayStart) / dirY) ((maxY - vy rayStart) / dirY))
                                  else tMax1)
                     in if \<not> \<bar>dirZ\<bar> > 0.0001 \<and> (vz rayStart < minZ \<or> vz rayStart > maxZ) then False
                        else
                          let tMin3 = (if \<bar>dirZ\<bar> > 0.0001
                                       then max tMin2 (min ((minZ - vz rayStart) / dirZ) ((maxZ - vz rayStart) / dirZ))
                                       else tMin2);
                              tMax3 = (if \<bar>dirZ\<bar> > 0.0001
                                       then min tMax2 (max ((minZ - vz rayStart) / dirZ) ((maxZ - vz rayStart) / dirZ))
                                       else tMax2)
                          in tMax3 \<ge> tMin3 \<and> tMin3 \<le> rayLength)"

section \<open>Line of sight (server/los.ts)\<close>

definition ENTITY_RADIUS :: real where "ENTITY_RADIUS = 1.0"
definition ENTITY_HEIGHT :: real where "ENTITY_HEIGHT = 3.6"
definition EYE_HEIGHT :: real where "EYE_HEIGHT = 3.0"

text \<open>The loops return false at the first obstacle the ray meets: \<open>list_all\<close> over the
  cells in order, and over each cell's obstacles in order.\<close>

definition hasLineOfSight :: "vector3 \<Rightarrow> vector3 \<Rightarrow> spatialGrid \<Rightarrow> bool" where
  "hasLineOfSight start end' g =
     list_all (\<lambda>cellKey.
        case map_of (cells g) cellKey of
          None \<Rightarrow> True
        | Some cell \<Rightarrow>
            list_all (\<lambda>ob. \<not> rayIntersectsBox start end' (opos ob) (osize ob)) (cellObstacles cell))
       (getCellsAlongRay start end')"

definition canSeeEntity :: "vector3 \<Rightarrow> vector3 \<Rightarrow> spatialGrid \<Rightarrow> bool" where
  "canSeeEntity viewerPos targetPos g =
     (let dx = vx targetPos - vx viewerPos;
          dz = vz targetPos - vz viewerPos;
          distXZ = sqrt (dx * dx + dz * dz)
      in if distXZ < 0.001 then True
         else
           let eyePos = \<lparr>vx = vx viewerPos, vy = vy viewerPos + EYE_HEIGHT, vz = vz viewerPos\<rparr>;
               perpX = (- dz / distXZ) * ENTITY_RADIUS;
               perpZ = (dx / distXZ) * ENTITY_RADIUS;
               leftPos = \<lparr>vx = vx targetPos + perpX, vy = vy targetPos + ENTITY_HEIGHT,
                          vz = vz targetPos + perpZ\<rparr>
           in if hasLineOfSight eyePos leftPos g then True
              else
                let rightPos = \<lparr>vx = vx targetPos - perpX, vy = vy targetPos + ENTITY_HEIGHT,
                                vz = vz targetPos - perpZ\<rparr>
                in if hasLineOfSight eyePos rightPos g then True
                   else
                     let leftBottomPos = \<lparr>vx = vx targetPos + perpX, vy = vy targetPos,
                                          vz = vz targetPos + perpZ\<rparr>
                     in if hasLineOfSight eyePos leftBottomPos g then True
                        else
                          let rightBottomPos = \<lparr>vx = vx targetPos - perpX, vy = vy targetPos,
                                                vz = vz targetPos - perpZ\<rparr>
                          in if hasLineOfSight eyePos rightBottomPos g then True else False)"

text \<open>\<open>getVisibleEntities\<close> for positions made of numbers. \<open>jsGetVisibleEntities\<close> below
  is the same function on JavaScript numbers, where \<open>distSq > viewDistanceSq\<close> is false
  for a NaN distance; the two agree on numbers (\<open>jsGetVisibleEntities_finite\<close>).\<close>

definition getVisibleEntities :: "vector3 \<Rightarrow> (nat \<times> vector3) list \<Rightarrow> spatialGrid \<Rightarrow> real
    \<Rightarrow> bool \<Rightarrow> nat \<Rightarrow> nat list" where
  "getVisibleEntities viewerPos entityPositions g viewDist los viewerId =
     (let viewDistanceSq = viewDist * viewDist
      in map fst (filter (\<lambda>(entityId, entityPos).
            if entityId = viewerId then False
            else
              let dx = vx entityPos - vx viewerPos;
                  dy = vy entityPos - vy viewerPos;
                  dz = vz entityPos - vz viewerPos;
                  distSq = dx * dx + dy * dy + dz * dz
              in if distSq > viewDistanceSq then False
                 else if \<not> los then True
                 else canSeeEntity viewerPos entityPos g) entityPositions))"

section \<open>Terrain height (server/terrain.ts)\<close>

definition TILE_SIZE :: real where "TILE_SIZE = 10"
definition HEIGHT_SCALE :: real where "HEIGHT_SCALE = 2.5"

definition seededRandom :: "real \<Rightarrow> real \<Rightarrow> real" where
  "seededRandom x z =
     (let n = sin (x * 12.9898 + z * 78.233) * 43758.5453
      in n - real_of_int \<lfloor>n\<rfloor>)"

definition getTerrainHeightAt :: "real \<Rightarrow> real \<Rightarrow> real" where
  "getTerrainHeightAt x z =
     (let tileX = real_of_int \<lfloor>x / TILE_SIZE\<rfloor>;
          tileZ = real_of_int \<lfloor>z / TILE_SIZE\<rfloor>;
          fx = (x / TILE_SIZE) - tileX;
          fz = (z / TILE_SIZE) - tileZ;
          h00 = seededRandom tileX tileZ * HEIGHT_SCALE;
          h10 = seededRandom (tileX + 1) tileZ * HEIGHT_SCALE;
          h01 = seededRandom tileX (tileZ + 1) * HEIGHT_SCALE;
          h11 = seededRandom (tileX + 1) (tileZ + 1) * HEIGHT_SCALE;
          h0 = h00 * (1 - fx) + h10 * fx;
          h1 = h01 * (1 - fx) + h11 * fx
      in h0 * (1 - fz) + h1 * fz)"

definition getHeightAt :: "real \<Rightarrow> real \<Rightarrow> real" where
  "getHeightAt x z = getTerrainHeightAt x z + 2"

section \<open>The cache of nearby obstacles (server/spatial.ts)\<close>

text \<open>\<open>nearbyObstaclesCache\<close> is a module-level \<open>Map\<close> from cell key to the obstacles
  of the cell and its eight neighbours. The source collects them in a \<open>Set\<close> of object
  references; the model's \<open>setAdd\<close> compares obstacles by value.\<close>

type_synonym obstacleCache = "(cellkey \<times> obstacle list) list"

definition neighbourKeys :: "cellkey \<Rightarrow> cellkey list" where
  "neighbourKeys k =
     concat (map (\<lambda>dx. map (\<lambda>dz. (fst k + dx, snd k + dz)) [-1, 0, 1]) [-1, 0, 1])"

definition buildNearbyObstaclesCache :: "spatialGrid \<Rightarrow> obstacleCache" where
  "buildNearbyObstaclesCache g =
     (let cellCoords = foldl (\<lambda>acc key. foldl (\<lambda>acc n. setAdd n acc) acc (neighbourKeys key))
                         [] (map fst (cells g))
      in foldl (\<lambda>cache key.
           let obs = foldl (\<lambda>acc neighborKey.
                        case map_of (cells g) neighborKey of
                          None \<Rightarrow> acc
                        | Some cell \<Rightarrow> foldl (\<lambda>acc ob. setAdd ob acc) acc (cellObstacles cell))
                      [] (neighbourKeys key)
           in if length obs > 0 then AList.update key obs cache else cache)
         [] cellCoords)"

definition getNearbyObstacles :: "obstacleCache \<Rightarrow> real \<Rightarrow> real \<Rightarrow> obstacle list" where
  "getNearbyObstacles cache x z =
     (case map_of cache (getCellCoords x z) of None \<Rightarrow> [] | Some obs \<Rightarrow> obs)"

section \<open>Bots (server/bots.ts)\<close>

text \<open>The xorshift generator works on the 32-bit integer that JavaScript's bit
  operators see: \<open><<\<close> is \<open>push_bit\<close>, \<open>>>\<close> the arithmetic shift \<open>signed_drop_bit\<close>,
  and \<open>>>> 0\<close> reads the word as unsigned.\<close>

definition fastRandom :: "32 word \<Rightarrow> real \<times> 32 word" where
  "fastRandom rngState =
     (let s1 = rngState XOR push_bit 13 rngState;
          s2 = s1 XOR signed_drop_bit 17 s1;
          s3 = s2 XOR push_bit 5 s2
      in (real (unat s3) / 4294967296, s3))"

definition TABLE_SIZE :: real where "TABLE_SIZE = 360"
definition TABLE_SCALE :: real where "TABLE_SCALE = TABLE_SIZE / (pi * 2)"

definition SIN_TABLE :: "int \<Rightarrow> real" where
  "SIN_TABLE i = sin ((real_of_int i / TABLE_SIZE) * pi * 2)"

definition COS_TABLE :: "int \<Rightarrow> real" where
  "COS_TABLE i = cos ((real_of_int i / TABLE_SIZE) * pi * 2)"

text \<open>JavaScript's \<open>%\<close> on numbers: the remainder of the division truncated towards
  zero.\<close>

definition js_fmod :: "real \<Rightarrow> real \<Rightarrow> real" where
  "js_fmod a b =
     a - b * real_of_int (if a / b \<ge> 0 then \<lfloor>a / b\<rfloor> else \<lceil>a / b\<rceil>)"

definition tableIndex :: "real \<Rightarrow> int" where
  "tableIndex angle =
     (let normalized = js_fmod (js_fmod angle (pi * 2) + pi * 2) (pi * 2)
      in js_rem \<lfloor>normalized * TABLE_SCALE\<rfloor> 360)"

definition fastSin :: "real \<Rightarrow> real" where
  "fastSin angle = SIN_TABLE (tableIndex angle)"

definition fastCos :: "real \<Rightarrow> real" where
  "fastCos angle = COS_TABLE (tableIndex angle)"

definition isSolid :: "obstacle_type \<Rightarrow> bool" where
  "isSolid t = (t \<in> {HouseWall, Ruins, Tower, Shed, Crate, Barricade, Rock, Fence, Boundary, Tree})"

definition checkCollision :: "real \<Rightarrow> real \<Rightarrow> obstacleCache \<Rightarrow> bool" where
  "checkCollision x z cache =
     (let collisionRadius = 1.5
      in list_ex (\<lambda>ob.
           isSolid (otype ob) \<and>
           (let halfX = vx (osize ob) / 2;
                halfZ = vz (osize ob) / 2;
                minX = vx (opos ob) - halfX - collisionRadius;
                maxX = vx (opos ob) + halfX + collisionRadius;
                minZ = vz (opos ob) - halfZ - collisionRadius;
                maxZ = vz (opos ob) + halfZ + collisionRadius
            in x \<ge> minX \<and> x \<le> maxX \<and> z \<ge> minZ \<and> z \<le> maxZ))
         (getNearbyObstacles cache x z))"

text \<open>\<open>updateBot\<close> mutates the bot and the generator's state; the model returns both.\<close>

definition updateBot :: "entity \<Rightarrow> real \<Rightarrow> obstacleCache \<Rightarrow> 32 word \<Rightarrow> entity \<times> 32 word" where
  "updateBot theBot deltaTime cache rng0 =
     (let botSpeed = 5;
          turnSpeed = 1;
          (r1, rng1) = fastRandom rng0;
          (rot1, rng2) =
             (if r1 < 0.02
              then (let (r2, rng') = fastRandom rng1
                    in (rotation theBot + (r2 - 0.5) * turnSpeed * deltaTime * 10, rng'))
              else (rotation theBot, rng1));
          dx = fastSin rot1 * botSpeed * deltaTime;
          dz = fastCos rot1 * botSpeed * deltaTime;
          newX = vx (position theBot) + dx;
          newZ = vz (position theBot) + dz;
          boundary = TERRAIN_SIZE / 2 - 50
      in if \<bar>newX\<bar> > boundary \<or> \<bar>newZ\<bar> > boundary
         then (theBot\<lparr>rotation := rot1 + pi\<rparr>, rng2)
         else
           let (finalX, finalZ, moved) =
                 (if \<not> checkCollision newX newZ cache then (newX, newZ, True)
                  else
                    let (fX, m1) =
                          (if dx \<noteq> 0 \<and> \<not> checkCollision newX (vz (position theBot)) cache
                           then (newX, True) else (vx (position theBot), False));
                        (fZ, m2) =
                          (if dz \<noteq> 0 \<and> \<not> checkCollision (vx (position theBot)) newZ cache
                           then (newZ, True) else (vz (position theBot), m1))
                    in (fX, fZ, m2))
           in if moved
              then (theBot\<lparr>rotation := rot1,
                        position := \<lparr>vx = finalX, vy = getHeightAt finalX finalZ, vz = finalZ\<rparr>\<rparr>,
                    rng2)
              else
                let (r3, rng3) = fastRandom rng2
                in (theBot\<lparr>rotation := rot1 + (pi / 2 + (r3 - 0.5) * pi / 4)\<rparr>, rng3))"

section \<open>The game tick (server/index.ts)\<close>

definition VIEW_DISTANCE :: real where "VIEW_DISTANCE = 200"
definition BULLET_SPEED :: real where "BULLET_SPEED = 150"
definition BULLET_DAMAGE :: int where "BULLET_DAMAGE = 20"
definition FIRE_RATE :: real where "FIRE_RATE = 5"
definition FIRE_INTERVAL :: real where "FIRE_INTERVAL = 1000 / FIRE_RATE"
definition BULLET_LIFETIME :: int where "BULLET_LIFETIME = 3000"
definition BULLET_RADIUS :: real where "BULLET_RADIUS = 0.3"
definition LOS_GRACE_TICKS :: int where "LOS_GRACE_TICKS = 1"
definition PLAYER_SPEED :: real where "PLAYER_SPEED = 50"
definition TICK_RATE :: real where "TICK_RATE = 30"

subsection \<open>Player movement\<close>

text \<open>The closure \<open>checkCollision\<close> of the player loop: the hard boundary, then the
  solid obstacles nearby, inflated by the player's radius (strict comparisons).\<close>

definition playerCheckCollision :: "obstacleCache \<Rightarrow> real \<Rightarrow> real \<Rightarrow> bool" where
  "playerCheckCollision cache x z =
     (let boundary = TERRAIN_SIZE / 2 - 10;
          PLAYER_RADIUS = 1.5
      in if \<bar>x\<bar> \<ge> boundary \<or> \<bar>z\<bar> \<ge> boundary then True
         else list_ex (\<lambda>ob.
                isSolid (otype ob) \<and>
                (let halfX = vx (osize ob) / 2 + PLAYER_RADIUS;
                     halfZ = vz (osize ob) / 2 + PLAYER_RADIUS
                 in x > vx (opos ob) - halfX \<and> x < vx (opos ob) + halfX \<and>
                    z > vz (opos ob) - halfZ \<and> z < vz (opos ob) + halfZ))
              (getNearbyObstacles cache x z))"

text \<open>The body of the player loop up to the decision on the final position: the pair
  \<open>(finalX, finalZ)\<close> the source has computed when it reaches "Apply movement if
  position changed".\<close>

definition playerFinalPosition :: "obstacleCache \<Rightarrow> real \<Rightarrow> vector2 \<Rightarrow> vector3 \<Rightarrow> real \<times> real" where
  "playerFinalPosition cache deltaTime md pos =
     (let dx = mx md * PLAYER_SPEED * deltaTime;
          dz = mz md * PLAYER_SPEED * deltaTime;
          newX = vx pos + dx;
          newZ = vz pos + dz
      in if \<not> playerCheckCollision cache newX newZ then (newX, newZ)
         else
           let finalX = (if dx \<noteq> 0 \<and> \<not> playerCheckCollision cache newX (vz pos)
                         then newX else vx pos);
               finalZ = (if dz \<noteq> 0 \<and> \<not> playerCheckCollision cache (vx pos) newZ
                         then newZ else vz pos)
           in (finalX, finalZ))"

text \<open>One iteration of the player loop: the entity of the client and the grid state
  after it.\<close>

definition playerUpdate :: "obstacleCache \<Rightarrow> real \<Rightarrow> clientConnection \<Rightarrow> entity \<Rightarrow> gridState
    \<Rightarrow> entity \<times> gridState" where
  "playerUpdate cache deltaTime client ent gs =
     (if mx (moveDirection client) \<noteq> 0 \<or> mz (moveDirection client) \<noteq> 0
      then
        let (finalX, finalZ) = playerFinalPosition cache deltaTime (moveDirection client) (position ent)
        in if finalX \<noteq> vx (position ent) \<or> finalZ \<noteq> vz (position ent)
           then
             let ent' = ent\<lparr>position := \<lparr>vx = finalX, vy = getHeightAt finalX finalZ, vz = finalZ\<rparr>\<rparr>
             in (ent', updateEntityInGrid gs (cid client) (position ent'))
           else (ent, gs)
      else (ent, gs))"

subsection \<open>Bullets\<close>

text \<open>The fire-rate gate and the bullet a client spawns (one iteration of the spawn
  loop). \<open>now\<close> is \<open>Date.now()\<close>, in milliseconds.\<close>

definition canFire :: "int \<Rightarrow> clientConnection \<Rightarrow> bool" where
  "canFire now client = (shooting client \<and> real_of_int (now - lastShotTime client) \<ge> FIRE_INTERVAL)"

definition spawnBullet :: "int \<Rightarrow> nat \<Rightarrow> clientConnection \<Rightarrow> entity \<Rightarrow> bullet" where
  "spawnBullet now bulletId client ent =
     (let yaw = rotation ent;
          pit = pitch ent;
          cosPitch = cos pit;
          dirX = - sin yaw * cosPitch;
          dirY = sin pit;
          dirZ = - cos yaw * cosPitch;
          spawnOffset = 1.5
      in \<lparr>bid = bulletId, ownerId = cid client,
          bposition = \<lparr>vx = vx (position ent) + dirX * spawnOffset,
                       vy = vy (position ent) + EYE_HEIGHT + dirY * spawnOffset,
                       vz = vz (position ent) + dirZ * spawnOffset\<rparr>,
          direction = \<lparr>vx = dirX, vy = dirY, vz = dirZ\<rparr>,
          speed = BULLET_SPEED, damage = BULLET_DAMAGE, createdAt = now\<rparr>)"

text \<open>The spawn loop over the clients: the clients after it, the bullets pushed and the
  bullet id counter. The entity of a client is looked up by the client's id.\<close>

fun bulletsSpawn :: "int \<Rightarrow> (nat \<times> entity) list \<Rightarrow> clientConnection list \<Rightarrow> bullet list \<Rightarrow> nat
    \<Rightarrow> clientConnection list \<times> bullet list \<times> nat" where
  "bulletsSpawn now ents [] bs counter = ([], bs, counter)"
| "bulletsSpawn now ents (c # cs) bs counter =
     (if canFire now c
      then
        (case map_of ents (cid c) of
           Some e \<Rightarrow>
             let (cs', bs', counter') =
                   bulletsSpawn now ents cs (bs @ [spawnBullet now counter c e]) (Suc counter)
             in (c\<lparr>lastShotTime := now\<rparr> # cs', bs', counter')
         | None \<Rightarrow>
             let (cs', bs', counter') = bulletsSpawn now ents cs bs counter
             in (c\<lparr>lastShotTime := now\<rparr> # cs', bs', counter'))
      else
        let (cs', bs', counter') = bulletsSpawn now ents cs bs counter
        in (c # cs', bs', counter'))"

text \<open>\<open>checkEntityAt\<close>: the id of the first entity, in the table's order, that the
  point hits, or -1.\<close>

definition checkEntityAt :: "(nat \<times> entity) list \<Rightarrow> nat \<Rightarrow> real \<Rightarrow> real \<Rightarrow> real \<Rightarrow> int" where
  "checkEntityAt ents owner px py pz =
     (let entityRadius = 1.5;
          entityHeight = 4.0
      in case find (\<lambda>(i, ent).
                i \<noteq> owner \<and>
                (let dx = px - vx (position ent);
                     dz = pz - vz (position ent);
                     distXZ = sqrt (dx * dx + dz * dz)
                 in distXZ < entityRadius + BULLET_RADIUS \<and>
                    py \<ge> vy (position ent) \<and> py \<le> vy (position ent) + entityHeight)) ents of
           None \<Rightarrow> - 1
         | Some (i, ent) \<Rightarrow> int i)"

definition checkObstacleAt :: "obstacleCache \<Rightarrow> real \<Rightarrow> real \<Rightarrow> real \<Rightarrow> bool" where
  "checkObstacleAt cache px py pz =
     list_ex (\<lambda>ob.
        isSolid (otype ob) \<and>
        (let halfX = vx (osize ob) / 2 + BULLET_RADIUS;
             halfY = vy (osize ob) / 2 + BULLET_RADIUS;
             halfZ = vz (osize ob) / 2 + BULLET_RADIUS
         in px > vx (opos ob) - halfX \<and> px < vx (opos ob) + halfX \<and>
            py > vy (opos ob) - halfY \<and> py < vy (opos ob) + halfY \<and>
            pz > vz (opos ob) - halfZ \<and> pz < vz (opos ob) + halfZ))
       (getNearbyObstacles cache px pz)"

text \<open>What an entity hit does to the victim (the entity of the table found under
  \<open>hitEntityId\<close>): damage, and when the hit points are used up, full hit points and a
  teleport to a random place. \<open>r1\<close> and \<open>r2\<close> are the two values \<open>Math.random()\<close>
  returns, in \<open>[0, 1)\<close>.\<close>

definition applyHit :: "nat \<Rightarrow> int \<Rightarrow> real \<Rightarrow> real \<Rightarrow> entity \<Rightarrow> gridState
    \<Rightarrow> entity \<times> gridState" where
  "applyHit hitEntityId dmg r1 r2 ent gs =
     (let ent1 = ent\<lparr>hp := max 0 (hp ent - dmg)\<rparr>
      in if hp ent1 \<le> 0
         then
           let x' = (r1 - 0.5) * (TERRAIN_SIZE - 200);
               z' = (r2 - 0.5) * (TERRAIN_SIZE - 200);
               ent2 = ent1\<lparr>hp := maxHp ent1,
                            position := \<lparr>vx = x', vy = getHeightAt x' z', vz = z'\<rparr>\<rparr>
           in (ent2, updateEntityInGrid gs hitEntityId (position ent2))
         else (ent1, gs))"

subsection \<open>Visibility and the grace period\<close>

text \<open>The grace map of a client: entity id to ticks remaining. The loop over the map
  visits the entries it had at the start; deleting the visited entry or overwriting it
  does not disturb the iteration.\<close>

type_synonym graceMap = "(nat \<times> int) list"

definition graceStep :: "nat list \<Rightarrow> (nat \<times> 'e) list \<Rightarrow> nat list \<times> graceMap \<Rightarrow> nat \<times> int
    \<Rightarrow> nat list \<times> graceMap" where
  "graceStep visibleIds ents acc entry =
     (let (finalVisibleIds, clientGraceMap) = acc;
          (entityId, ticksRemaining) = entry
      in if entityId \<notin> set visibleIds \<and> map_of ents entityId \<noteq> None
         then (finalVisibleIds @ [entityId],
               if ticksRemaining \<le> 1 then AList.delete entityId clientGraceMap
               else AList.update entityId (ticksRemaining - 1) clientGraceMap)
         else (finalVisibleIds, clientGraceMap))"

text \<open>The visibility part of the client loop of a tick: the ids sent to the client and
  the client's grace map after the tick.\<close>

definition clientVisible :: "(nat \<times> entity) list \<Rightarrow> spatialGrid \<Rightarrow> clientConnection \<Rightarrow> vector3
    \<Rightarrow> graceMap \<Rightarrow> nat list \<times> graceMap" where
  "clientVisible ents g client clientPos clientGraceMap =
     (let entityPositions = map (\<lambda>(i, ent). (i, position ent)) ents;
          visibleIds = getVisibleEntities clientPos entityPositions g (viewDistance client)
                         (losMode client) (cid client);
          (finalVisibleIds, graceMap1) =
             foldl (graceStep visibleIds ents) (visibleIds, clientGraceMap) clientGraceMap;
          graceMap2 = foldl (\<lambda>m entityId. AList.update entityId LOS_GRACE_TICKS m) graceMap1 visibleIds
      in (finalVisibleIds, graceMap2))"

text \<open>The entity entries of the update message: each id sent is looked up in the table
  at the moment the message is built. A missing entity makes the source throw (the
  client's update is skipped); the model returns \<open>None\<close> then.\<close>

record entityView =
  viewId :: nat
  viewPosition :: vector3
  viewRotation :: real
  viewPitch :: real
  viewHp :: int
  viewMaxHp :: int
  viewIsPlayer :: bool

definition viewOf :: "entity \<Rightarrow> entityView" where
  "viewOf ent = \<lparr>viewId = eid ent, viewPosition = position ent, viewRotation = rotation ent,
                 viewPitch = pitch ent, viewHp = hp ent, viewMaxHp = maxHp ent,
                 viewIsPlayer = isPlayer ent\<rparr>"

fun buildEntities :: "(nat \<times> entity) list \<Rightarrow> nat list \<Rightarrow> entityView list option" where
  "buildEntities ents [] = Some []"
| "buildEntities ents (i # ids) =
     (case map_of ents i of
        None \<Rightarrow> None
      | Some ent \<Rightarrow> (case buildEntities ents ids of None \<Rightarrow> None | Some vs \<Rightarrow> Some (viewOf ent # vs)))"

definition clientFrame :: "(nat \<times> entity) list \<Rightarrow> spatialGrid \<Rightarrow> clientConnection \<Rightarrow> graceMap
    \<Rightarrow> (entityView list \<times> graceMap) option" where
  "clientFrame ents g client clientGraceMap =
     (case map_of ents (cid client) of
        None \<Rightarrow> None
      | Some self \<Rightarrow>
          (let (finalVisibleIds, graceMap') = clientVisible ents g client (position self) clientGraceMap
           in (case buildEntities ents finalVisibleIds of
                 None \<Rightarrow> None
               | Some vs \<Rightarrow> Some (vs, graceMap'))))"

section \<open>Scenarios\<close>

text \<open>Concrete worlds used to evaluate the model: an entity with full hit points at a
  given place, the wall of the spec's occlusion scenario (a house wall of size
  4 x 10 x 4 centred at (10, 5, 0)), and a crate whose footprint lies in one grid cell.\<close>

definition mkEntity :: "nat \<Rightarrow> bool \<Rightarrow> vector3 \<Rightarrow> entity" where
  "mkEntity i p pos =
     \<lparr>eid = i, position = pos, velocity = \<lparr>vx = 0, vy = 0, vz = 0\<rparr>,
      rotation = 0, pitch = 0, isPlayer = p, hp = 100, maxHp = 100\<rparr>"

definition wallS2 :: obstacle where
  "wallS2 = \<lparr>opos = \<lparr>vx = 10, vy = 5, vz = 0\<rparr>, osize = \<lparr>vx = 4, vy = 10, vz = 4\<rparr>,
             otype = HouseWall\<rparr>"

definition cornerCrate :: obstacle where
  "cornerCrate = \<lparr>opos = \<lparr>vx = 4.2, vy = 3, vz = 7\<rparr>, osize = \<lparr>vx = 1.4, vy = 6, vz = 4\<rparr>,
                  otype = Crate\<rparr>"

definition cornerWall :: obstacle where
  "cornerWall = \<lparr>opos = \<lparr>vx = 10, vy = 5, vz = 10\<rparr>, osize = \<lparr>vx = 4, vy = 10, vz = 4\<rparr>,
                 otype = HouseWall\<rparr>"

text \<open>A player (id 1000, at the origin) and a bot (id 0, at (20, 0, 0)); the player's
  client in classical or in line-of-sight mode; and the bot after a deadly hit has sent it,
  with the random numbers 0.9 and 0.5, to (720, 0).\<close>

definition losClient :: "bool \<Rightarrow> clientConnection" where
  "losClient m = \<lparr>cid = 1000, losMode = m, viewDistance = VIEW_DISTANCE,
                  moveDirection = \<lparr>mx = 0, mz = 0\<rparr>, shooting = False, lastShotTime = 0\<rparr>"

definition duelTable :: "(nat \<times> entity) list" where
  "duelTable = [(0, mkEntity 0 False \<lparr>vx = 20, vy = 0, vz = 0\<rparr>),
                (1000, mkEntity 1000 True \<lparr>vx = 0, vy = 0, vz = 0\<rparr>)]"

definition teleportedBot :: entity where
  "teleportedBot = fst (applyHit 0 BULLET_DAMAGE 0.9 0.5
       ((mkEntity 0 False \<lparr>vx = 20, vy = 0, vz = 0\<rparr>)\<lparr>hp := 20\<rparr>)
       \<lparr>grid = createSpatialGrid [], entityCellsPacked = Map.empty\<rparr>)"

subsection \<open>The server over time\<close>

text \<open>For the claims about successive ticks: the spawn loop run at each tick, in between
  the SHOOT messages of the clients (the handler stores the flag in the client whose id
  is given). \<open>Tick now\<close> is a game tick at wall-clock time \<open>now\<close>.\<close>

datatype serverEvent = Tick int | ShootMsg nat bool

fun serverRun :: "serverEvent list \<Rightarrow> (nat \<times> entity) list \<Rightarrow> clientConnection list \<Rightarrow> bullet list \<Rightarrow> nat
    \<Rightarrow> clientConnection list \<times> bullet list \<times> nat" where
  "serverRun [] ents cs bs counter = (cs, bs, counter)"
| "serverRun (Tick now # es) ents cs bs counter =
     (let (cs', bs', counter') = bulletsSpawn now ents cs bs counter
      in serverRun es ents cs' bs' counter')"
| "serverRun (ShootMsg k f # es) ents cs bs counter =
     serverRun es ents (map (\<lambda>c. if cid c = k then c\<lparr>shooting := f\<rparr> else c) cs) bs counter"

definition shooter :: clientConnection where
  "shooter = \<lparr>cid = 1000, losMode = False, viewDistance = VIEW_DISTANCE,
              moveDirection = \<lparr>mx = 0, mz = 0\<rparr>, shooting = False, lastShotTime = 0\<rparr>"

definition shooterTable :: "(nat \<times> entity) list" where
  "shooterTable = [(1000, mkEntity 1000 True \<lparr>vx = 0, vy = 0, vz = 0\<rparr>)]"

text \<open>Two predicates on the bullet list: bullets of one owner are at least the fire
  interval apart, in the order they were spawned; and no bullet of a client is younger than
  the client's last shot time.\<close>

definition spacedShots :: "bullet list \<Rightarrow> bool" where
  "spacedShots bs =
     sorted_wrt (\<lambda>a b. ownerId a = ownerId b \<longrightarrow> real_of_int (createdAt b - createdAt a) \<ge> FIRE_INTERVAL) bs"

definition shotsRecorded :: "clientConnection list \<Rightarrow> bullet list \<Rightarrow> bool" where
  "shotsRecorded cs bs =
     (\<forall>c \<in> set cs. \<forall>b \<in> set bs. ownerId b = cid c \<longrightarrow> createdAt b \<le> lastShotTime c)"

text \<open>A client that holds the fire button for one second, from just before the first
  tick to just after the last: at ticks 90 ms apart (an overloaded server), and at the
  nominal 30 ticks per second.\<close>

definition heldFor :: "int list \<Rightarrow> serverEvent list" where
  "heldFor ticks = ShootMsg 1000 True # map Tick ticks @ [ShootMsg 1000 False]"

definition slowTicks :: "int list" where
  "slowTicks = map (\<lambda>i. 1700000000000 + 90 * i) [0..11]"

definition nominalTicks :: "int list" where
  "nominalTicks = map (\<lambda>i. 1700000000000 + (100 * i) div 3) [0..29]"

section \<open>JavaScript numbers and the DataView\<close>

text \<open>The messages carry what JavaScript calls a number: a double, which may be NaN or
  an infinity. The model keeps the finite values as reals (the rounding of double
  arithmetic and the sign of zero are not modelled) and gives the arithmetic and the
  comparisons their IEEE 754 results on the other values: NaN is contagious, every ordered
  comparison with NaN is false, and \<open>!==\<close> with NaN is true.\<close>

datatype jsnum = Fin real | PosInf | NegInf | NaN

fun js_sign :: "jsnum \<Rightarrow> int" where
  "js_sign (Fin a) = (if a = 0 then 0 else if 0 < a then 1 else - 1)"
| "js_sign PosInf = 1"
| "js_sign NegInf = - 1"
| "js_sign NaN = 0"

definition js_mul :: "jsnum \<Rightarrow> jsnum \<Rightarrow> jsnum" where
  "js_mul x y =
     (case (x, y) of
        (Fin a, Fin b) \<Rightarrow> Fin (a * b)
      | (NaN, _) \<Rightarrow> NaN
      | (_, NaN) \<Rightarrow> NaN
      | _ \<Rightarrow> (let s = js_sign x * js_sign y
              in if s = 0 then NaN else if 0 < s then PosInf else NegInf))"

definition js_add :: "jsnum \<Rightarrow> jsnum \<Rightarrow> jsnum" where
  "js_add x y =
     (case (x, y) of
        (Fin a, Fin b) \<Rightarrow> Fin (a + b)
      | (NaN, _) \<Rightarrow> NaN
      | (_, NaN) \<Rightarrow> NaN
      | (PosInf, NegInf) \<Rightarrow> NaN
      | (NegInf, PosInf) \<Rightarrow> NaN
      | (Fin a, i) \<Rightarrow> i
      | (i, _) \<Rightarrow> i)"

definition js_abs :: "jsnum \<Rightarrow> jsnum" where
  "js_abs x = (case x of Fin a \<Rightarrow> Fin \<bar>a\<bar> | NaN \<Rightarrow> NaN | _ \<Rightarrow> PosInf)"

definition js_lt :: "jsnum \<Rightarrow> jsnum \<Rightarrow> bool" where
  "js_lt x y =
     (case (x, y) of
        (Fin a, Fin b) \<Rightarrow> a < b
      | (NaN, _) \<Rightarrow> False
      | (_, NaN) \<Rightarrow> False
      | (NegInf, NegInf) \<Rightarrow> False
      | (NegInf, _) \<Rightarrow> True
      | (_, PosInf) \<Rightarrow> x \<noteq> PosInf
      | _ \<Rightarrow> False)"

definition js_ge :: "jsnum \<Rightarrow> jsnum \<Rightarrow> bool" where
  "js_ge x y = (x \<noteq> NaN \<and> y \<noteq> NaN \<and> \<not> js_lt x y)"

definition js_gt :: "jsnum \<Rightarrow> jsnum \<Rightarrow> bool" where
  "js_gt x y = js_lt y x"

definition js_neq :: "jsnum \<Rightarrow> jsnum \<Rightarrow> bool" where
  "js_neq x y = (x = NaN \<or> y = NaN \<or> x \<noteq> y)"

text \<open>\<open>DataView.getUint8\<close>, \<open>getUint16\<close>, \<open>getUint32\<close> and \<open>getFloat32\<close> with
  \<open>littleEndian = true\<close>; \<open>None\<close> is the RangeError of a read past the end. \<open>f32_val\<close>
  is the number an IEEE 754 binary32 bit pattern stands for.\<close>

definition f32_val :: "nat \<Rightarrow> jsnum" where
  "f32_val w =
     (let s = w div 2 ^ 31 mod 2;
          e = w div 2 ^ 23 mod 256;
          m = w mod 2 ^ 23
      in if e = 255 then (if m \<noteq> 0 then NaN else if s = 1 then NegInf else PosInf)
         else
           let a = (if e = 0 then real m * 2 powi (- 149)
                    else real (2 ^ 23 + m) * 2 powi (int e - 150))
           in Fin (if s = 1 then - a else a))"

definition getUint8 :: "8 word list \<Rightarrow> nat \<Rightarrow> nat option" where
  "getUint8 buffer byteOffset =
     (if byteOffset < length buffer then Some (unat (buffer ! byteOffset)) else None)"

definition getUint16 :: "8 word list \<Rightarrow> nat \<Rightarrow> nat option" where
  "getUint16 buffer byteOffset =
     (if byteOffset + 2 \<le> length buffer
      then Some (unat (buffer ! byteOffset) + 2 ^ 8 * unat (buffer ! (byteOffset + 1)))
      else None)"

definition getUint32 :: "8 word list \<Rightarrow> nat \<Rightarrow> nat option" where
  "getUint32 buffer byteOffset =
     (if byteOffset + 4 \<le> length buffer
      then Some (unat (buffer ! byteOffset) + 2 ^ 8 * unat (buffer ! (byteOffset + 1))
                 + 2 ^ 16 * unat (buffer ! (byteOffset + 2)) + 2 ^ 24 * unat (buffer ! (byteOffset + 3)))
      else None)"

definition getFloat32 :: "8 word list \<Rightarrow> nat \<Rightarrow> jsnum option" where
  "getFloat32 buffer byteOffset = map_option f32_val (getUint32 buffer byteOffset)"

section \<open>The INPUT frame and the player step on JavaScript numbers\<close>

text \<open>\<open>decodeInput\<close> of server/protocol.ts, the INPUT branch of the message handler of
  server/index.ts, and the iteration of the player loop of \<open>gameTick\<close> once more, this
  time on JavaScript numbers, so that the model says what the code does with a NaN or an
  infinity. A player is here the client's move direction together with the position,
  rotation and pitch of \<open>client.entity\<close>. The cache of nearby obstacles has no entry
  under a key made of NaN or Infinity, and every path of \<open>getHeightAt\<close> through a
  non-finite argument ends in NaN. The grid update at the end of the iteration is left out
  here; \<open>jsPlayerStep\<close> below has it.\<close>

record decodedInput =
  inMoveX :: jsnum
  inMoveZ :: jsnum
  inRotation :: jsnum
  inPitch :: jsnum

definition decodeInput :: "8 word list \<Rightarrow> decodedInput option" where
  "decodeInput buffer =
     (if length buffer < 17 then None
      else if getUint8 buffer 0 \<noteq> Some 3 then None
      else
        case (getFloat32 buffer 1, getFloat32 buffer 5, getFloat32 buffer 9, getFloat32 buffer 13) of
          (Some x, Some z, Some r, Some p) \<Rightarrow>
            Some \<lparr>inMoveX = x, inMoveZ = z, inRotation = r, inPitch = p\<rparr>
        | _ \<Rightarrow> None)"

record jsPlayer =
  jsMove :: "jsnum \<times> jsnum"
  jsPosition :: "jsnum \<times> jsnum \<times> jsnum"
  jsRotation :: jsnum
  jsPitch :: jsnum

definition onInputFrame :: "8 word list \<Rightarrow> jsPlayer \<Rightarrow> jsPlayer" where
  "onInputFrame buffer p =
     (if getUint8 buffer 0 = Some 3
      then
        case decodeInput buffer of
          None \<Rightarrow> p
        | Some input \<Rightarrow>
            p\<lparr>jsMove := (inMoveX input, inMoveZ input),
              jsRotation := inRotation input,
              jsPitch := inPitch input\<rparr>
      else p)"

definition jsNearbyObstacles :: "obstacleCache \<Rightarrow> jsnum \<Rightarrow> jsnum \<Rightarrow> obstacle list" where
  "jsNearbyObstacles cache x z =
     (case (x, z) of (Fin a, Fin b) \<Rightarrow> getNearbyObstacles cache a b | _ \<Rightarrow> [])"

definition jsGetHeightAt :: "jsnum \<Rightarrow> jsnum \<Rightarrow> jsnum" where
  "jsGetHeightAt x z = (case (x, z) of (Fin a, Fin b) \<Rightarrow> Fin (getHeightAt a b) | _ \<Rightarrow> NaN)"

definition jsPlayerCheckCollision :: "obstacleCache \<Rightarrow> jsnum \<Rightarrow> jsnum \<Rightarrow> bool" where
  "jsPlayerCheckCollision cache x z =
     (let boundary = TERRAIN_SIZE / 2 - 10;
          PLAYER_RADIUS = 1.5
      in if js_ge (js_abs x) (Fin boundary) \<or> js_ge (js_abs z) (Fin boundary) then True
         else list_ex (\<lambda>ob.
                isSolid (otype ob) \<and>
                (let halfX = vx (osize ob) / 2 + PLAYER_RADIUS;
                     halfZ = vz (osize ob) / 2 + PLAYER_RADIUS
                 in js_gt x (Fin (vx (opos ob) - halfX)) \<and> js_lt x (Fin (vx (opos ob) + halfX)) \<and>
                    js_gt z (Fin (vz (opos ob) - halfZ)) \<and> js_lt z (Fin (vz (opos ob) + halfZ))))
              (jsNearbyObstacles cache x z))"

definition jsPlayerUpdate :: "obstacleCache \<Rightarrow> jsnum \<Rightarrow> jsPlayer \<Rightarrow> jsPlayer" where
  "jsPlayerUpdate cache deltaTime p =
     (let (moveX, moveZ) = jsMove p;
          (posX, posY, posZ) = jsPosition p
      in if js_neq moveX (Fin 0) \<or> js_neq moveZ (Fin 0)
         then
           let dx = js_mul (js_mul moveX (Fin PLAYER_SPEED)) deltaTime;
               dz = js_mul (js_mul moveZ (Fin PLAYER_SPEED)) deltaTime;
               newX = js_add posX dx;
               newZ = js_add posZ dz;
               (finalX, finalZ) =
                 (if \<not> jsPlayerCheckCollision cache newX newZ then (newX, newZ)
                  else
                    (if js_neq dx (Fin 0) \<and> \<not> jsPlayerCheckCollision cache newX posZ
                     then newX else posX,
                     if js_neq dz (Fin 0) \<and> \<not> jsPlayerCheckCollision cache posX newZ
                     then newZ else posZ))
           in if js_neq finalX posX \<or> js_neq finalZ posZ
              then p\<lparr>jsPosition := (finalX, jsGetHeightAt finalX finalZ, finalZ)\<rparr>
              else p
         else p)"

text \<open>Two INPUT frames, one with NaN in every field (bytes 00 00 C0 7F) and one with
  infinities (+, -, +, -), and a player at rest at the origin.\<close>

definition nanFrame :: "8 word list" where
  "nanFrame = [3, 0, 0, 0xC0, 0x7F, 0, 0, 0xC0, 0x7F, 0, 0, 0xC0, 0x7F, 0, 0, 0xC0, 0x7F]"

definition infFrame :: "8 word list" where
  "infFrame = [3, 0, 0, 0x80, 0x7F, 0, 0, 0x80, 0xFF, 0, 0, 0x80, 0x7F, 0, 0, 0x80, 0xFF]"

definition restingPlayer :: jsPlayer where
  "restingPlayer = \<lparr>jsMove = (Fin 0, Fin 0), jsPosition = (Fin 0, Fin (getHeightAt 0 0), Fin 0),
                     jsRotation = Fin 0, jsPitch = Fin 0\<rparr>"

section \<open>The spatial grid on JavaScript numbers (server/spatial.ts)\<close>

text \<open>The entity operations of the grid once more, on JavaScript numbers: a player's
  position can hold NaN (after an INPUT frame with a NaN move component), and the grid is
  updated from it. \<open>Math.floor\<close>, \<open>/\<close> and \<open>%\<close> have their IEEE 754 results: the floor of
  NaN or an infinity is the argument, \<open>%\<close> takes the sign of the dividend and is NaN for a
  NaN or infinite dividend; \<open>===\<close> is false whenever a side is NaN.\<close>

definition js_neg :: "jsnum \<Rightarrow> jsnum" where
  "js_neg x = (case x of Fin a \<Rightarrow> Fin (- a) | PosInf \<Rightarrow> NegInf | NegInf \<Rightarrow> PosInf | NaN \<Rightarrow> NaN)"

definition js_sub :: "jsnum \<Rightarrow> jsnum \<Rightarrow> jsnum" where
  "js_sub x y = js_add x (js_neg y)"

definition js_floor :: "jsnum \<Rightarrow> jsnum" where
  "js_floor x = (case x of Fin a \<Rightarrow> Fin (real_of_int \<lfloor>a\<rfloor>) | _ \<Rightarrow> x)"

definition js_div :: "jsnum \<Rightarrow> jsnum \<Rightarrow> jsnum" where
  "js_div x y =
     (case (x, y) of
        (NaN, _) \<Rightarrow> NaN
      | (_, NaN) \<Rightarrow> NaN
      | (Fin a, Fin b) \<Rightarrow>
          if b \<noteq> 0 then Fin (a / b)
          else if a = 0 then NaN else if 0 < a then PosInf else NegInf
      | (Fin a, _) \<Rightarrow> Fin 0
      | (_, Fin b) \<Rightarrow> (if (b < 0) = (x = PosInf) then NegInf else PosInf)
      | _ \<Rightarrow> NaN)"

definition js_remainder :: "jsnum \<Rightarrow> jsnum \<Rightarrow> jsnum" where
  "js_remainder x y =
     (case (x, y) of
        (Fin a, Fin b) \<Rightarrow>
          if b = 0 then NaN
          else Fin (sgn a * (\<bar>a\<bar> - \<bar>b\<bar> * real_of_int \<lfloor>\<bar>a\<bar> / \<bar>b\<bar>\<rfloor>))
      | (Fin a, PosInf) \<Rightarrow> Fin a
      | (Fin a, NegInf) \<Rightarrow> Fin a
      | _ \<Rightarrow> NaN)"

definition js_seq :: "jsnum \<Rightarrow> jsnum \<Rightarrow> bool" where
  "js_seq x y = (x \<noteq> NaN \<and> y \<noteq> NaN \<and> x = y)"

text \<open>A cell key is the text \<open>`${cellX},${cellZ}`\<close>; the model keeps the two numbers the
  text is made of, so that two keys are equal when their texts are: the key \<open>NaN,NaN\<close> is
  equal to itself, although NaN \<open>===\<close> NaN is false.\<close>

type_synonym jskey = "jsnum \<times> jsnum"

definition jsGetCellKey :: "jsnum \<Rightarrow> jsnum \<Rightarrow> jskey" where
  "jsGetCellKey x z =
     (let cellX = js_floor (js_mul (js_add x (Fin HALF_TERRAIN)) (Fin INV_CELL_SIZE));
          cellZ = js_floor (js_mul (js_add z (Fin HALF_TERRAIN)) (Fin INV_CELL_SIZE))
      in (cellX, cellZ))"

definition jsGetPackedCellKey :: "jsnum \<Rightarrow> jsnum \<Rightarrow> jsnum" where
  "jsGetPackedCellKey x z =
     (let cellX = js_floor (js_mul (js_add x (Fin HALF_TERRAIN)) (Fin INV_CELL_SIZE));
          cellZ = js_floor (js_mul (js_add z (Fin HALF_TERRAIN)) (Fin INV_CELL_SIZE))
      in js_add (js_mul cellX (Fin 10000)) cellZ)"

definition jsPackedToString :: "jsnum \<Rightarrow> jskey" where
  "jsPackedToString packed =
     (let cellX = js_floor (js_div packed (Fin 10000));
          cellZ = js_remainder packed (Fin 10000)
      in (cellX, cellZ))"

text \<open>The cells of the grid under their keys, and \<open>entityCellsPacked\<close>.\<close>

record jsGridState =
  jsCells :: "(jskey \<times> gridcell) list"
  jsEntityCellsPacked :: "nat \<rightharpoonup> jsnum"

definition jsCellDelete :: "jskey \<Rightarrow> nat \<Rightarrow> (jskey \<times> gridcell) list \<Rightarrow> (jskey \<times> gridcell) list" where
  "jsCellDelete k entityId cs =
     (case map_of cs k of
        None \<Rightarrow> cs
      | Some c \<Rightarrow> AList.update k (c\<lparr>cellEntities := cellEntities c - {entityId}\<rparr>) cs)"

definition jsCellAdd :: "jskey \<Rightarrow> nat \<Rightarrow> (jskey \<times> gridcell) list \<Rightarrow> (jskey \<times> gridcell) list" where
  "jsCellAdd k entityId cs =
     (let cs1 = (if map_of cs k = None then AList.update k emptyCell cs else cs)
      in case map_of cs1 k of
           None \<Rightarrow> cs1
         | Some c \<Rightarrow> AList.update k (c\<lparr>cellEntities := insert entityId (cellEntities c)\<rparr>) cs1)"

text \<open>\<open>updateEntityInGrid\<close> and \<open>removeEntityFromGrid\<close>. The test
  \<open>oldPacked === newPacked\<close> is false when there is no old key (\<open>undefined\<close>) and when
  either key is NaN.\<close>

definition jsUpdateEntityInGrid :: "jsGridState \<Rightarrow> nat \<Rightarrow> jsnum \<times> jsnum \<times> jsnum \<Rightarrow> jsGridState" where
  "jsUpdateEntityInGrid s entityId newPos =
     (let (newX, newY, newZ) = newPos;
          newPacked = jsGetPackedCellKey newX newZ;
          oldPacked = jsEntityCellsPacked s entityId
      in if (case oldPacked of None \<Rightarrow> False | Some p \<Rightarrow> js_seq p newPacked) then s
         else
           let newKey = jsPackedToString newPacked;
               cs1 = (case oldPacked of
                        None \<Rightarrow> jsCells s
                      | Some p \<Rightarrow> jsCellDelete (jsPackedToString p) entityId (jsCells s));
               cs2 = jsCellAdd newKey entityId cs1
           in s\<lparr>jsCells := cs2,
                jsEntityCellsPacked := (jsEntityCellsPacked s)(entityId \<mapsto> newPacked)\<rparr>)"

definition jsRemoveEntityFromGrid :: "jsGridState \<Rightarrow> nat \<Rightarrow> jsGridState" where
  "jsRemoveEntityFromGrid s entityId =
     (case jsEntityCellsPacked s entityId of
        None \<Rightarrow> s
      | Some packed \<Rightarrow>
          s\<lparr>jsCells := jsCellDelete (jsPackedToString packed) entityId (jsCells s),
            jsEntityCellsPacked := (jsEntityCellsPacked s)(entityId := None)\<rparr>)"

text \<open>A grid state on integer keys as a grid state on JavaScript numbers; on such states
  the two versions of the entity operations do the same
  (\<open>jsUpdateEntityInGrid_finite\<close>, \<open>jsRemoveEntityFromGrid_finite\<close>).\<close>

definition jsKey :: "cellkey \<Rightarrow> jskey" where
  "jsKey k = (Fin (real_of_int (fst k)), Fin (real_of_int (snd k)))"

definition liftGrid :: "gridState \<Rightarrow> jsGridState" where
  "liftGrid s =
     \<lparr>jsCells = map (\<lambda>(k, c). (jsKey k, c)) (cells (grid s)),
      jsEntityCellsPacked = map_option (\<lambda>p. Fin (real_of_int p)) \<circ> entityCellsPacked s\<rparr>"

section \<open>The server state and the events that change it (server/index.ts)\<close>

text \<open>The iteration of the player loop of \<open>gameTick\<close> for one client, with the grid
  update that ends it: \<open>jsPlayerUpdate\<close> together with the call of
  \<open>updateEntityInGrid\<close> in the branch where the position has changed.\<close>

definition jsPlayerStep :: "obstacleCache \<Rightarrow> jsnum \<Rightarrow> nat \<Rightarrow> jsPlayer \<Rightarrow> jsGridState
    \<Rightarrow> jsPlayer \<times> jsGridState" where
  "jsPlayerStep cache deltaTime clientId p gs =
     (let (moveX, moveZ) = jsMove p;
          (posX, posY, posZ) = jsPosition p
      in if js_neq moveX (Fin 0) \<or> js_neq moveZ (Fin 0)
         then
           let dx = js_mul (js_mul moveX (Fin PLAYER_SPEED)) deltaTime;
               dz = js_mul (js_mul moveZ (Fin PLAYER_SPEED)) deltaTime;
               newX = js_add posX dx;
               newZ = js_add posZ dz;
               (finalX, finalZ) =
                 (if \<not> jsPlayerCheckCollision cache newX newZ then (newX, newZ)
                  else
                    (if js_neq dx (Fin 0) \<and> \<not> jsPlayerCheckCollision cache newX posZ
                     then newX else posX,
                     if js_neq dz (Fin 0) \<and> \<not> jsPlayerCheckCollision cache posX newZ
                     then newZ else posZ))
           in if js_neq finalX posX \<or> js_neq finalZ posZ
              then
                let p' = p\<lparr>jsPosition := (finalX, jsGetHeightAt finalX finalZ, finalZ)\<rparr>
                in (p', jsUpdateEntityInGrid gs clientId (jsPosition p'))
              else (p, gs)
         else (p, gs))"

text \<open>\<open>createBot\<close> and \<open>createBots\<close> of server/bots.ts. The values of \<open>Math.random()\<close>,
  numbers in \<open>[0, 1)\<close>, are arguments of the operations that draw them.\<close>

definition unitRandom :: "real \<Rightarrow> bool" where
  "unitRandom r = (0 \<le> r \<and> r < 1)"

definition createBot :: "nat \<Rightarrow> real \<times> real \<times> real \<Rightarrow> entity" where
  "createBot i rs =
     (let (r1, r2, r3) = rs;
          x = (r1 - 0.5) * (TERRAIN_SIZE - 100);
          z = (r2 - 0.5) * (TERRAIN_SIZE - 100);
          y = getHeightAt x z
      in \<lparr>eid = i, position = \<lparr>vx = x, vy = y, vz = z\<rparr>, velocity = \<lparr>vx = 0, vy = 0, vz = 0\<rparr>,
          rotation = r3 * pi * 2, pitch = 0, isPlayer = False, hp = 100, maxHp = 100\<rparr>)"

definition createBots :: "(real \<times> real \<times> real) list \<Rightarrow> (nat \<times> entity) list" where
  "createBots rs = map (\<lambda>(i, r). (i, createBot i r)) (enumerate 0 rs)"

text \<open>The module state that the entity operations read and write: \<open>gameState.entities\<close>
  (a \<open>Map\<close> in insertion order), the grid with its packed keys, the cache of nearby
  obstacles, the counter of player ids and the state of the bots' random generator. An
  entry of the entity table is a bot, whose numbers come from finite arithmetic and are
  kept as reals, or a player, whose numbers are JavaScript numbers. A player's entry holds
  the player's entity and the move direction of its client: the \<open>open\<close> handler creates
  the entity and the client together and the \<open>close\<close> handler deletes them together, so
  the clients, in the order of their \<open>Map\<close>, are the players of the table in its
  order.\<close>

datatype tableEntry = BotEntry entity | PlayerEntry jsPlayer

definition jsVector :: "vector3 \<Rightarrow> jsnum \<times> jsnum \<times> jsnum" where
  "jsVector p = (Fin (vx p), Fin (vy p), Fin (vz p))"

fun entryPosition :: "tableEntry \<Rightarrow> jsnum \<times> jsnum \<times> jsnum" where
  "entryPosition (BotEntry ent) = jsVector (position ent)"
| "entryPosition (PlayerEntry p) = jsPosition p"

record jsWorld =
  jsEntities :: "(nat \<times> tableEntry) list"
  jsSpatial :: jsGridState
  jsCache :: obstacleCache
  jsPlayerIdCounter :: nat
  jsRngState :: "32 word"

text \<open>\<open>initializeWorld\<close>: the grid is made from the obstacles, whose cells have integer
  indices, the bots become the entity table and are then entered into the grid one by
  one.\<close>

definition jsInitializeWorld :: "obstacle list \<Rightarrow> (real \<times> real \<times> real) list \<Rightarrow> 32 word \<Rightarrow> jsWorld" where
  "jsInitializeWorld obs rs seed =
     (let g = createSpatialGrid obs;
          cache = buildNearbyObstaclesCache g;
          bots = createBots rs;
          gs0 = \<lparr>jsCells = map (\<lambda>(k, c). (jsKey k, c)) (cells g), jsEntityCellsPacked = Map.empty\<rparr>
      in \<lparr>jsEntities = map (\<lambda>(i, ent). (i, BotEntry ent)) bots,
          jsSpatial = foldl (\<lambda>s (i, ent). jsUpdateEntityInGrid s i (jsVector (position ent))) gs0 bots,
          jsCache = cache, jsPlayerIdCounter = 1000, jsRngState = seed\<rparr>)"

text \<open>The \<open>open\<close> and \<open>close\<close> handlers of the web socket, and the message handler for
  a binary message and for a JSON message of type \<open>input\<close>. The JSON handler stores
  \<open>data.moveDirection.x\<close> and \<open>z\<close> as they are, and the rotation and the pitch when they
  are numbers (\<open>None\<close> when they are not). Messages of the other types change neither a
  position nor a move direction.\<close>

definition jsOpen :: "real \<Rightarrow> real \<Rightarrow> jsWorld \<Rightarrow> jsWorld" where
  "jsOpen r1 r2 w =
     (let playerId = jsPlayerIdCounter w;
          x = (r1 - 0.5) * 100;
          z = (r2 - 0.5) * 100;
          y = getHeightAt x z;
          p = \<lparr>jsMove = (Fin 0, Fin 0), jsPosition = (Fin x, Fin y, Fin z),
               jsRotation = Fin 0, jsPitch = Fin 0\<rparr>
      in w\<lparr>jsPlayerIdCounter := Suc playerId,
           jsEntities := AList.update playerId (PlayerEntry p) (jsEntities w),
           jsSpatial := jsUpdateEntityInGrid (jsSpatial w) playerId (jsPosition p)\<rparr>)"

definition jsClose :: "nat \<Rightarrow> jsWorld \<Rightarrow> jsWorld" where
  "jsClose k w =
     (case map_of (jsEntities w) k of
        Some (PlayerEntry p) \<Rightarrow>
          w\<lparr>jsSpatial := jsRemoveEntityFromGrid (jsSpatial w) k,
            jsEntities := AList.delete k (jsEntities w)\<rparr>
      | _ \<Rightarrow> w)"

definition jsMessage :: "nat \<Rightarrow> 8 word list \<Rightarrow> jsWorld \<Rightarrow> jsWorld" where
  "jsMessage k buffer w =
     (case map_of (jsEntities w) k of
        Some (PlayerEntry p) \<Rightarrow>
          w\<lparr>jsEntities := AList.update k (PlayerEntry (onInputFrame buffer p)) (jsEntities w)\<rparr>
      | _ \<Rightarrow> w)"

definition jsJsonInput :: "nat \<Rightarrow> jsnum \<Rightarrow> jsnum \<Rightarrow> jsnum option \<Rightarrow> jsnum option \<Rightarrow> jsWorld \<Rightarrow> jsWorld" where
  "jsJsonInput k moveX moveZ rot pit w =
     (case map_of (jsEntities w) k of
        Some (PlayerEntry p) \<Rightarrow>
          w\<lparr>jsEntities :=
              AList.update k
                (PlayerEntry (p\<lparr>jsMove := (moveX, moveZ),
                                jsRotation := (case rot of None \<Rightarrow> jsRotation p | Some r \<Rightarrow> r),
                                jsPitch := (case pit of None \<Rightarrow> jsPitch p | Some r \<Rightarrow> r)\<rparr>))
                (jsEntities w)\<rparr>
      | _ \<Rightarrow> w)"

text \<open>The three loops at the head of \<open>gameTick\<close>: every bot is moved, then the grid
  bin of every bot is refreshed, then every client's player is moved and, when its position
  has changed, its grid bin refreshed.\<close>

fun jsBotsUpdate :: "real \<Rightarrow> obstacleCache \<Rightarrow> (nat \<times> tableEntry) list \<Rightarrow> 32 word
    \<Rightarrow> (nat \<times> tableEntry) list \<times> 32 word" where
  "jsBotsUpdate deltaTime cache [] rng = ([], rng)"
| "jsBotsUpdate deltaTime cache ((i, BotEntry ent) # rest) rng =
     (let (ent', rng') = updateBot ent deltaTime cache rng;
          (rest', rng'') = jsBotsUpdate deltaTime cache rest rng'
      in ((i, BotEntry ent') # rest', rng''))"
| "jsBotsUpdate deltaTime cache ((i, PlayerEntry p) # rest) rng =
     (let (rest', rng') = jsBotsUpdate deltaTime cache rest rng
      in ((i, PlayerEntry p) # rest', rng'))"

definition jsBotsGridUpdate :: "jsGridState \<Rightarrow> (nat \<times> tableEntry) list \<Rightarrow> jsGridState" where
  "jsBotsGridUpdate gs table =
     foldl (\<lambda>s (i, entry).
        case entry of
          BotEntry ent \<Rightarrow> jsUpdateEntityInGrid s i (jsVector (position ent))
        | PlayerEntry p \<Rightarrow> s) gs table"

fun jsPlayersUpdate :: "obstacleCache \<Rightarrow> real \<Rightarrow> (nat \<times> tableEntry) list \<Rightarrow> jsGridState
    \<Rightarrow> (nat \<times> tableEntry) list \<times> jsGridState" where
  "jsPlayersUpdate cache deltaTime [] gs = ([], gs)"
| "jsPlayersUpdate cache deltaTime ((i, PlayerEntry p) # rest) gs =
     (let (p', gs') = jsPlayerStep cache (Fin deltaTime) i p gs;
          (rest', gs'') = jsPlayersUpdate cache deltaTime rest gs'
      in ((i, PlayerEntry p') # rest', gs''))"
| "jsPlayersUpdate cache deltaTime ((i, BotEntry ent) # rest) gs =
     (let (rest', gs') = jsPlayersUpdate cache deltaTime rest gs
      in ((i, BotEntry ent) # rest', gs'))"

definition jsTickMovement :: "real \<Rightarrow> jsWorld \<Rightarrow> jsWorld" where
  "jsTickMovement deltaTime w =
     (let (table1, rng1) = jsBotsUpdate deltaTime (jsCache w) (jsEntities w) (jsRngState w);
          gs1 = jsBotsGridUpdate (jsSpatial w) table1;
          (table2, gs2) = jsPlayersUpdate (jsCache w) deltaTime table1 gs1
      in w\<lparr>jsEntities := table2, jsSpatial := gs2, jsRngState := rng1\<rparr>)"

text \<open>The respawn of an entity whose hit points a bullet has brought to zero: new
  \<open>x\<close> and \<open>z\<close> are drawn, the height is read from the terrain and the grid bin is
  refreshed. The model lets any entity of the table respawn at any time.\<close>

definition jsRespawn :: "nat \<Rightarrow> real \<Rightarrow> real \<Rightarrow> jsWorld \<Rightarrow> jsWorld" where
  "jsRespawn k r1 r2 w =
     (case map_of (jsEntities w) k of
        None \<Rightarrow> w
      | Some entry \<Rightarrow>
          let x' = (r1 - 0.5) * (TERRAIN_SIZE - 200);
              z' = (r2 - 0.5) * (TERRAIN_SIZE - 200);
              y' = getHeightAt x' z';
              entry' = (case entry of
                          BotEntry ent \<Rightarrow>
                            BotEntry (ent\<lparr>hp := maxHp ent, position := \<lparr>vx = x', vy = y', vz = z'\<rparr>\<rparr>)
                        | PlayerEntry p \<Rightarrow> PlayerEntry (p\<lparr>jsPosition := (Fin x', Fin y', Fin z')\<rparr>))
          in w\<lparr>jsEntities := AList.update k entry' (jsEntities w),
               jsSpatial := jsUpdateEntityInGrid (jsSpatial w) k (entryPosition entry')\<rparr>)"

text \<open>The states of the server: those reached from an initialised world by the
  handlers, the movement part of a tick and respawns.\<close>

inductive jsReachable :: "jsWorld \<Rightarrow> bool" where
  init: "list_all (\<lambda>(r1, r2, r3). unitRandom r1 \<and> unitRandom r2 \<and> unitRandom r3) rs
         \<Longrightarrow> jsReachable (jsInitializeWorld obs rs seed)"
| connect: "jsReachable w \<Longrightarrow> unitRandom r1 \<Longrightarrow> unitRandom r2 \<Longrightarrow> jsReachable (jsOpen r1 r2 w)"
| disconnect: "jsReachable w \<Longrightarrow> jsReachable (jsClose k w)"
| message: "jsReachable w \<Longrightarrow> jsReachable (jsMessage k buffer w)"
| json: "jsReachable w \<Longrightarrow> jsReachable (jsJsonInput k moveX moveZ rot pit w)"
| tick: "jsReachable w \<Longrightarrow> jsReachable (jsTickMovement deltaTime w)"
| respawn: "jsReachable w \<Longrightarrow> unitRandom r1 \<Longrightarrow> unitRandom r2 \<Longrightarrow> jsReachable (jsRespawn k r1 r2 w)"

subsection \<open>The invariant of the grid\<close>

text \<open>The key under which \<open>updateEntityInGrid\<close> files a position is the text that
  \<open>packedToString\<close> makes of its packed key; the members of a cell are its entity set, and
  no entity when there is no such cell. The grid state agrees with a record \<open>rec\<close> of
  positions per entity id when the packed key kept for an id is the one of its recorded
  position and the members of every cell are the ids whose recorded position is filed
  under its key.\<close>

definition jsFiledKey :: "jsnum \<times> jsnum \<times> jsnum \<Rightarrow> jskey" where
  "jsFiledKey pos = (case pos of (x, y, z) \<Rightarrow> jsPackedToString (jsGetPackedCellKey x z))"

definition jsCellMembers :: "(jskey \<times> gridcell) list \<Rightarrow> jskey \<Rightarrow> nat set" where
  "jsCellMembers cs k = (case map_of cs k of None \<Rightarrow> {} | Some c \<Rightarrow> cellEntities c)"

definition jsGridInv :: "(nat \<rightharpoonup> jsnum \<times> jsnum \<times> jsnum) \<Rightarrow> jsGridState \<Rightarrow> bool" where
  "jsGridInv rec gs =
     ((\<forall>i. jsEntityCellsPacked gs i
            = map_option (\<lambda>pos. case pos of (x, y, z) \<Rightarrow> jsGetPackedCellKey x z) (rec i)) \<and>
      (\<forall>k. jsCellMembers (jsCells gs) k = {i. \<exists>pos. rec i = Some pos \<and> jsFiledKey pos = k}))"

text \<open>A real position is in the world when both cell indices are in \<open>0..399\<close>. A
  coordinate of a table entry is in the terrain when it is such a number or NaN; the
  invariant of the world is that the ids of the table are distinct, the grid agrees with
  the positions of the table, and the \<open>x\<close> and \<open>z\<close> of every entry are in the terrain.\<close>

definition inWorld :: "vector3 \<Rightarrow> bool" where
  "inWorld p = (- 1000 \<le> vx p \<and> vx p < 1000 \<and> - 1000 \<le> vz p \<and> vz p < 1000)"

definition posOf :: "(nat \<times> tableEntry) list \<Rightarrow> nat \<rightharpoonup> jsnum \<times> jsnum \<times> jsnum" where
  "posOf table = map_option entryPosition \<circ> map_of table"

definition inTerrain :: "jsnum \<Rightarrow> bool" where
  "inTerrain c = (case c of Fin a \<Rightarrow> - 1000 \<le> a \<and> a < 1000 | NaN \<Rightarrow> True | _ \<Rightarrow> False)"

definition admissible :: "jsnum \<times> jsnum \<times> jsnum \<Rightarrow> bool" where
  "admissible pos = (case pos of (x, y, z) \<Rightarrow> inTerrain x \<and> inTerrain z)"

definition jsWorldInv :: "jsWorld \<Rightarrow> bool" where
  "jsWorldInv w =
     (distinct (map fst (jsEntities w)) \<and> jsGridInv (posOf (jsEntities w)) (jsSpatial w)
      \<and> list_all (\<lambda>(i, entry). admissible (entryPosition entry)) (jsEntities w))"

text \<open>An INPUT frame whose \<open>moveX\<close> is NaN and whose other fields are zero; the grid
  with the resting player filed as entity 1000; the world after one connection, with its
  player at the origin; and that world after the frame with the NaN and one tick.\<close>

definition nanXFrame :: "8 word list" where
  "nanXFrame = [3, 0, 0, 0xC0, 0x7F, 0, 0, 0, 0, 0, 0, 0, 0, 0, 0, 0, 0]"

definition filedGrid :: jsGridState where
  "filedGrid = jsUpdateEntityInGrid \<lparr>jsCells = [], jsEntityCellsPacked = Map.empty\<rparr> 1000
                 (jsPosition restingPlayer)"

definition openWorld :: jsWorld where
  "openWorld = jsOpen (1/2) (1/2) (jsInitializeWorld [] [] 1)"

definition nanWorld :: jsWorld where
  "nanWorld = jsTickMovement (1/30) (jsMessage 1000 nanXFrame openWorld)"

section \<open>Line of sight and the visible set on JavaScript numbers (server/los.ts, server/spatial.ts)\<close>

text \<open>\<open>getCellsAlongRay\<close>, \<open>rayIntersectsBox\<close>, \<open>hasLineOfSight\<close>, \<open>canSeeEntity\<close> and
  \<open>getVisibleEntities\<close> once more, on JavaScript numbers: the tick passes them the positions
  of the entity table, and a player's position can hold NaN. \<open>Math.sqrt\<close> of a negative
  number or of NaN is NaN, \<open>Math.ceil\<close> of NaN or an infinity is the argument, \<open>Math.min\<close>
  and \<open>Math.max\<close> are NaN when an argument is, and \<open><=\<close> is false when a side is NaN.\<close>

definition js_sqrt :: "jsnum \<Rightarrow> jsnum" where
  "js_sqrt x = (case x of Fin a \<Rightarrow> if a < 0 then NaN else Fin (sqrt a) | PosInf \<Rightarrow> PosInf | _ \<Rightarrow> NaN)"

definition js_ceil :: "jsnum \<Rightarrow> jsnum" where
  "js_ceil x = (case x of Fin a \<Rightarrow> Fin (real_of_int \<lceil>a\<rceil>) | _ \<Rightarrow> x)"

definition js_le :: "jsnum \<Rightarrow> jsnum \<Rightarrow> bool" where
  "js_le x y = (x \<noteq> NaN \<and> y \<noteq> NaN \<and> \<not> js_lt y x)"

definition js_min :: "jsnum \<Rightarrow> jsnum \<Rightarrow> jsnum" where
  "js_min x y = (if x = NaN \<or> y = NaN then NaN else if js_lt y x then y else x)"

definition js_max :: "jsnum \<Rightarrow> jsnum \<Rightarrow> jsnum" where
  "js_max x y = (if x = NaN \<or> y = NaN then NaN else if js_lt x y then y else x)"

text \<open>The loop of \<open>getCellsAlongRay\<close> runs while \<open>i <= steps\<close>: \<open>steps\<close> is a whole number
  when it is a number; the loop does not run at all when \<open>steps\<close> is NaN; and it runs for
  ever when \<open>steps\<close> is Infinity, in which case the function returns nothing, and neither
  does a function that calls it: the result is \<open>None\<close>.\<close>

definition jsGetCellsAlongRay :: "jsnum \<times> jsnum \<times> jsnum \<Rightarrow> jsnum \<times> jsnum \<times> jsnum \<Rightarrow> jskey list option" where
  "jsGetCellsAlongRay start end' =
     (let (startX, startY, startZ) = start;
          (endX, endY, endZ) = end';
          dx = js_sub endX startX;
          dz = js_sub endZ startZ;
          distance = js_sqrt (js_add (js_mul dx dx) (js_mul dz dz))
      in if js_lt distance (Fin 0.001) then Some [jsGetCellKey startX startZ]
         else
           let steps = js_add (js_ceil (js_div distance (Fin CELL_SIZE))) (Fin 1)
           in case steps of
                Fin n \<Rightarrow>
                  Some (foldl (\<lambda>cs i.
                          let t = js_div (Fin (real_of_int i)) steps;
                              x = js_add startX (js_mul dx t);
                              z = js_add startZ (js_mul dz t)
                          in setAdd (jsGetCellKey x z) cs) [] [0..\<lfloor>n\<rfloor>])
              | PosInf \<Rightarrow> None
              | _ \<Rightarrow> Some [])"

definition jsRayIntersectsBox :: "jsnum \<times> jsnum \<times> jsnum \<Rightarrow> jsnum \<times> jsnum \<times> jsnum
    \<Rightarrow> jsnum \<times> jsnum \<times> jsnum \<Rightarrow> jsnum \<times> jsnum \<times> jsnum \<Rightarrow> bool" where
  "jsRayIntersectsBox rayStart rayEnd boxCenter boxSize =
     (let (startX, startY, startZ) = rayStart;
          (endX, endY, endZ) = rayEnd;
          (centerX, centerY, centerZ) = boxCenter;
          (sizeX, sizeY, sizeZ) = boxSize;
          dX = js_sub endX startX;
          dY = js_sub endY startY;
          dZ = js_sub endZ startZ;
          rayLength = js_sqrt (js_add (js_add (js_mul dX dX) (js_mul dY dY)) (js_mul dZ dZ))
      in if js_lt rayLength (Fin 0.001) then False
         else
           let dirX = js_div dX rayLength;
               dirY = js_div dY rayLength;
               dirZ = js_div dZ rayLength;
               minX = js_sub centerX (js_div sizeX (Fin 2));
               minY = js_sub centerY (js_div sizeY (Fin 2));
               minZ = js_sub centerZ (js_div sizeZ (Fin 2));
               maxX = js_add centerX (js_div sizeX (Fin 2));
               maxY = js_add centerY (js_div sizeY (Fin 2));
               maxZ = js_add centerZ (js_div sizeZ (Fin 2));
               tMin0 = Fin 0;
               tMax0 = rayLength
           in if \<not> js_gt (js_abs dirX) (Fin 0.0001) \<and> (js_lt startX minX \<or> js_gt startX maxX) then False
              else
                let tMin1 = (if js_gt (js_abs dirX) (Fin 0.0001)
                             then js_max tMin0 (js_min (js_div (js_sub minX startX) dirX)
                                                       (js_div (js_sub maxX startX) dirX))
                             else tMin0);
                    tMax1 = (if js_gt (js_abs dirX) (Fin 0.0001)
                             then js_min tMax0 (js_max (js_div (js_sub minX startX) dirX)
                                                       (js_div (js_sub maxX startX) dirX))
                             else tMax0)
                in if \<not> js_gt (js_abs dirY) (Fin 0.0001) \<and> (js_lt startY minY \<or> js_gt startY maxY) then False
                   else
                     let tMin2 = (if js_gt (js_abs dirY) (Fin 0.0001)
                                  then js_max tMin1 (js_min (js_div (js_sub minY startY) dirY)
                                                            (js_div (js_sub maxY startY) dirY))
                                  else tMin1);
                         tMax2 = (if js_gt (js_abs dirY) (Fin 0.0001)
                                  then js_min tMax1 (js_max (js_div (js_sub minY startY) dirY)
                                                            (js_div (js_sub maxY startY) dirY))
                                  else tMax1)
                     in if \<not> js_gt (js_abs dirZ) (Fin 0.0001) \<and> (js_lt startZ minZ \<or> js_gt startZ maxZ) then False
                        else
                          let tMin3 = (if js_gt (js_abs dirZ) (Fin 0.0001)
                                       then js_max tMin2 (js_min (js_div (js_sub minZ startZ) dirZ)
                                                                 (js_div (js_sub maxZ startZ) dirZ))
                                       else tMin2);
                              tMax3 = (if js_gt (js_abs dirZ) (Fin 0.0001)
                                       then js_min tMax2 (js_max (js_div (js_sub minZ startZ) dirZ)
                                                                 (js_div (js_sub maxZ startZ) dirZ))
                                       else tMax2)
                          in js_ge tMax3 tMin3 \<and> js_le tMin3 rayLength)"

text \<open>\<open>hasLineOfSight\<close> collects the cells first and then tests the obstacles of each;
  \<open>canSeeEntity\<close> tries its four rays in turn and returns at the first clear one.\<close>

definition jsHasLineOfSight :: "jsnum \<times> jsnum \<times> jsnum \<Rightarrow> jsnum \<times> jsnum \<times> jsnum
    \<Rightarrow> (jskey \<times> gridcell) list \<Rightarrow> bool option" where
  "jsHasLineOfSight start end' cs =
     (case jsGetCellsAlongRay start end' of
        None \<Rightarrow> None
      | Some cellKeys \<Rightarrow>
          Some (list_all (\<lambda>cellKey.
                  case map_of cs cellKey of
                    None \<Rightarrow> True
                  | Some cell \<Rightarrow>
                      list_all (\<lambda>ob. \<not> jsRayIntersectsBox start end' (jsVector (opos ob)) (jsVector (osize ob)))
                        (cellObstacles cell))
                 cellKeys))"

definition jsCanSeeEntity :: "jsnum \<times> jsnum \<times> jsnum \<Rightarrow> jsnum \<times> jsnum \<times> jsnum
    \<Rightarrow> (jskey \<times> gridcell) list \<Rightarrow> bool option" where
  "jsCanSeeEntity viewerPos targetPos cs =
     (let (viewerX, viewerY, viewerZ) = viewerPos;
          (targetX, targetY, targetZ) = targetPos;
          dx = js_sub targetX viewerX;
          dz = js_sub targetZ viewerZ;
          distXZ = js_sqrt (js_add (js_mul dx dx) (js_mul dz dz))
      in if js_lt distXZ (Fin 0.001) then Some True
         else
           let eyePos = (viewerX, js_add viewerY (Fin EYE_HEIGHT), viewerZ);
               perpX = js_mul (js_div (js_neg dz) distXZ) (Fin ENTITY_RADIUS);
               perpZ = js_mul (js_div dx distXZ) (Fin ENTITY_RADIUS);
               leftPos = (js_add targetX perpX, js_add targetY (Fin ENTITY_HEIGHT), js_add targetZ perpZ);
               rightPos = (js_sub targetX perpX, js_add targetY (Fin ENTITY_HEIGHT), js_sub targetZ perpZ);
               leftBottomPos = (js_add targetX perpX, targetY, js_add targetZ perpZ);
               rightBottomPos = (js_sub targetX perpX, targetY, js_sub targetZ perpZ)
           in case jsHasLineOfSight eyePos leftPos cs of
                None \<Rightarrow> None
              | Some True \<Rightarrow> Some True
              | Some False \<Rightarrow>
                  (case jsHasLineOfSight eyePos rightPos cs of
                     None \<Rightarrow> None
                   | Some True \<Rightarrow> Some True
                   | Some False \<Rightarrow>
                       (case jsHasLineOfSight eyePos leftBottomPos cs of
                          None \<Rightarrow> None
                        | Some True \<Rightarrow> Some True
                        | Some False \<Rightarrow>
                            (case jsHasLineOfSight eyePos rightBottomPos cs of
                               None \<Rightarrow> None
                             | Some True \<Rightarrow> Some True
                             | Some False \<Rightarrow> Some False))))"

text \<open>\<open>getVisibleEntities\<close>: the test \<open>distSq > viewDistanceSq\<close> of its loop, and the
  loop. The view distance of a client is the constant it is given when it connects.\<close>

definition jsBeyondViewDistance :: "jsnum \<times> jsnum \<times> jsnum \<Rightarrow> jsnum \<times> jsnum \<times> jsnum \<Rightarrow> real \<Rightarrow> bool" where
  "jsBeyondViewDistance viewerPos entityPos viewDist =
     (let (viewerX, viewerY, viewerZ) = viewerPos;
          (entityX, entityY, entityZ) = entityPos;
          viewDistanceSq = js_mul (Fin viewDist) (Fin viewDist);
          dx = js_sub entityX viewerX;
          dy = js_sub entityY viewerY;
          dz = js_sub entityZ viewerZ;
          distSq = js_add (js_add (js_mul dx dx) (js_mul dy dy)) (js_mul dz dz)
      in js_gt distSq viewDistanceSq)"

fun jsGetVisibleEntities :: "jsnum \<times> jsnum \<times> jsnum \<Rightarrow> (nat \<times> jsnum \<times> jsnum \<times> jsnum) list
    \<Rightarrow> (jskey \<times> gridcell) list \<Rightarrow> real \<Rightarrow> bool \<Rightarrow> nat \<Rightarrow> nat list option" where
  "jsGetVisibleEntities viewerPos [] cs viewDist los viewerId = Some []"
| "jsGetVisibleEntities viewerPos ((entityId, entityPos) # rest) cs viewDist los viewerId =
     (let pushed =
            (if entityId = viewerId then Some False
             else if jsBeyondViewDistance viewerPos entityPos viewDist then Some False
             else if \<not> los then Some True
             else jsCanSeeEntity viewerPos entityPos cs)
      in case pushed of
           None \<Rightarrow> None
         | Some b \<Rightarrow>
             (case jsGetVisibleEntities viewerPos rest cs viewDist los viewerId of
                None \<Rightarrow> None
              | Some visible \<Rightarrow> Some (if b then entityId # visible else visible)))"

text \<open>The visibility part of the client loop of a tick, on the entity table with its
  players on JavaScript numbers: the ids sent to the client and the client's grace map
  after the tick.\<close>

definition jsClientVisible :: "(nat \<times> tableEntry) list \<Rightarrow> (jskey \<times> gridcell) list \<Rightarrow> clientConnection
    \<Rightarrow> jsnum \<times> jsnum \<times> jsnum \<Rightarrow> graceMap \<Rightarrow> (nat list \<times> graceMap) option" where
  "jsClientVisible table cs client clientPos clientGraceMap =
     (let entityPositions = map (\<lambda>(i, entry). (i, entryPosition entry)) table
      in case jsGetVisibleEntities clientPos entityPositions cs (viewDistance client)
                (losMode client) (cid client) of
           None \<Rightarrow> None
         | Some visibleIds \<Rightarrow>
             (let (finalVisibleIds, graceMap1) =
                    foldl (graceStep visibleIds table) (visibleIds, clientGraceMap) clientGraceMap;
                  graceMap2 = foldl (\<lambda>m entityId. AList.update entityId LOS_GRACE_TICKS m) graceMap1 visibleIds
              in Some (finalVisibleIds, graceMap2)))"

text \<open>A grid on keys of JavaScript numbers has the obstacles of a grid on integer keys when
  the cells of both hold the same obstacles under every integer key, a missing cell holding
  none.\<close>

definition sameObstacles :: "(jskey \<times> gridcell) list \<Rightarrow> spatialGrid \<Rightarrow> bool" where
  "sameObstacles cs g =
     (\<forall>k. (case map_of cs (jsKey k) of None \<Rightarrow> [] | Some c \<Rightarrow> cellObstacles c)
          = (case map_of (cells g) k of None \<Rightarrow> [] | Some c \<Rightarrow> cellObstacles c))"

text \<open>The duel of the occlusion scenario on JavaScript numbers: the cells of the grid
  with the wall, the table with the bot and the player at the origin, and the same table
  with the player at \<open>x = NaN\<close>.\<close>

definition wallCells :: "(jskey \<times> gridcell) list" where
  "wallCells = map (\<lambda>(k, c). (jsKey k, c)) (cells (createSpatialGrid [wallS2]))"

definition duelEntries :: "(nat \<times> tableEntry) list" where
  "duelEntries =
     [(0, BotEntry (mkEntity 0 False \<lparr>vx = 20, vy = 0, vz = 0\<rparr>)),
      (1000, PlayerEntry \<lparr>jsMove = (Fin 0, Fin 0), jsPosition = (Fin 0, Fin 0, Fin 0),
                          jsRotation = Fin 0, jsPitch = Fin 0\<rparr>)]"

definition nanEntries :: "(nat \<times> tableEntry) list" where
  "nanEntries =
     [(0, BotEntry (mkEntity 0 False \<lparr>vx = 20, vy = 0, vz = 0\<rparr>)),
      (1000, PlayerEntry \<lparr>jsMove = (NaN, Fin 0), jsPosition = (NaN, NaN, Fin 0),
                          jsRotation = Fin 0, jsPitch = Fin 0\<rparr>)]"


section \<open>The UPDATE frame (server/protocol.ts, client/client.js)\<close>

text \<open>\<open>DataView.setUint8\<close>, \<open>setUint16\<close>, \<open>setUint32\<close> and \<open>setFloat32\<close> with
  \<open>littleEndian = true\<close>. An integer is written modulo the width of its field.
  \<open>setFloat32\<close> writes the binary32 number nearest to its argument, ties to the even
  significand: for a finite nonzero \<open>r\<close> with \<open>q\<close> the exponent of \<open>\<bar>r\<bar>\<close>, not below
  -126, the significand is \<open>\<bar>r\<bar> / 2^(q - 23)\<close> rounded to an integer, and the bit
  pattern is the biased exponent and the significand added up, which carries a significand
  of 2^24 into the exponent and ends at the pattern of infinity.\<close>

definition round_even :: "real \<Rightarrow> int" where
  "round_even r =
     (let f = \<lfloor>r\<rfloor>; d = r - real_of_int f
      in if d < 1 / 2 then f else if 1 / 2 < d then f + 1 else if even f then f else f + 1)"

definition f32_body :: "real \<Rightarrow> nat" where
  "f32_body a =
     (let q = max \<lfloor>log 2 a\<rfloor> (- 126);
          n = round_even (a / 2 powi (q - 23))
      in nat (min ((q + 126) * 2 ^ 23 + n) 0x7F800000))"

definition f32_bits :: "jsnum \<Rightarrow> nat" where
  "f32_bits x =
     (case x of
        NaN \<Rightarrow> 0x7FC00000
      | PosInf \<Rightarrow> 0x7F800000
      | NegInf \<Rightarrow> 0xFF800000
      | Fin r \<Rightarrow>
          if r = 0 then 0 else (if r < 0 then 2 ^ 31 else 0) + f32_body \<bar>r\<bar>)"

definition setUint8 :: "nat \<Rightarrow> 8 word list" where
  "setUint8 v = [of_nat v]"

definition setUint16 :: "nat \<Rightarrow> 8 word list" where
  "setUint16 v = [of_nat v, of_nat (v div 2 ^ 8)]"

definition setUint32 :: "nat \<Rightarrow> 8 word list" where
  "setUint32 v = [of_nat v, of_nat (v div 2 ^ 8), of_nat (v div 2 ^ 16), of_nat (v div 2 ^ 24)]"

definition setFloat32 :: "jsnum \<Rightarrow> 8 word list" where
  "setFloat32 x = setUint32 (f32_bits x)"


text \<open>The arguments of \<open>encodeUpdate\<close>: the position of the client, the entities, the
  bullets (each only a position), the hit events and the statistics. \<open>encodeUpdate\<close>
  allocates a buffer of exactly the size of its parts and writes them one after the other;
  the result is their concatenation, the last two bytes left zero.\<close>

type_synonym jsvec = "jsnum \<times> jsnum \<times> jsnum"

record wireEntity =
  weId :: nat
  wePosition :: jsvec
  weRotation :: jsnum
  wePitch :: jsnum
  weHp :: nat
  weMaxHp :: nat
  weIsPlayer :: bool

record wireHit =
  whPosition :: jsvec
  whHitEntity :: bool

record wireStats =
  totalEntities :: nat
  totalObstacles :: nat
  connectedPlayers :: nat
  tickTimeMsPerSec :: jsnum
  losTimeMsPerSec :: jsnum
  tickTimeMsAvg :: jsnum
  visibleEntities :: nat
  serverModeLos :: bool
  tickRate :: nat

record updateMessage =
  umMyPosition :: jsvec
  umEntities :: "wireEntity list"
  umBullets :: "jsvec list"
  umHits :: "wireHit list"
  umStats :: wireStats

definition encodeVector :: "jsvec \<Rightarrow> 8 word list" where
  "encodeVector p = (case p of (x, y, z) \<Rightarrow> setFloat32 x @ setFloat32 y @ setFloat32 z)"

definition encodeEntity :: "wireEntity \<Rightarrow> 8 word list" where
  "encodeEntity e =
     setUint32 (weId e) @ encodeVector (wePosition e) @ setFloat32 (weRotation e)
     @ setFloat32 (wePitch e) @ setUint16 (weHp e) @ setUint16 (weMaxHp e)
     @ setUint8 (if weIsPlayer e then 1 else 0)"

definition encodeHit :: "wireHit \<Rightarrow> 8 word list" where
  "encodeHit h = encodeVector (whPosition h) @ setUint8 (if whHitEntity h then 1 else 0)"

definition encodeStats :: "wireStats \<Rightarrow> 8 word list" where
  "encodeStats st =
     setUint32 (totalEntities st) @ setUint32 (totalObstacles st) @ setUint16 (connectedPlayers st)
     @ setFloat32 (tickTimeMsPerSec st) @ setFloat32 (losTimeMsPerSec st)
     @ setFloat32 (tickTimeMsAvg st) @ setUint16 (visibleEntities st)
     @ setUint8 (if serverModeLos st then 1 else 0) @ setUint8 (tickRate st) @ [0, 0]"

definition encodeUpdate :: "updateMessage \<Rightarrow> 8 word list" where
  "encodeUpdate m =
     setUint8 2 @ encodeVector (umMyPosition m)
     @ setUint16 (length (umEntities m)) @ concat (map encodeEntity (umEntities m))
     @ setUint16 (length (umBullets m)) @ concat (map encodeVector (umBullets m))
     @ setUint16 (length (umHits m)) @ concat (map encodeHit (umHits m))
     @ encodeStats (umStats m)"

subsection \<open>The client's decoder\<close>

text \<open>\<open>decodeUpdate\<close> of client/client.js. \<open>toString\<close> is \<open>Number.prototype.toString\<close>
  on a natural number. The three loops of the decoder read \<open>count\<close> items from the
  offset on, each loop moving the offset by the size of an item; a read past the end of
  the buffer is a RangeError, here \<open>None\<close>.\<close>

fun toString :: "nat \<Rightarrow> string" where
  "toString n =
     (if n < 10 then [''0123456789'' ! n]
      else toString (n div 10) @ [''0123456789'' ! (n mod 10)])"

declare toString.simps [simp del]

record clientEntity =
  ceId :: string
  ceName :: string
  cePosition :: jsvec
  ceRotation :: jsnum
  cePitch :: jsnum
  ceHp :: nat
  ceMaxHp :: nat
  ceIsPlayer :: bool

record decodedUpdate =
  duMyPosition :: jsvec
  duEntities :: "clientEntity list"
  duBullets :: "jsvec list"
  duHits :: "wireHit list"
  duStats :: wireStats

definition decodeVector :: "8 word list \<Rightarrow> nat \<Rightarrow> jsvec option" where
  "decodeVector buffer offset =
     (case (getFloat32 buffer offset, getFloat32 buffer (offset + 4), getFloat32 buffer (offset + 8)) of
        (Some x, Some y, Some z) \<Rightarrow> Some (x, y, z)
      | _ \<Rightarrow> None)"

definition decodeEntity :: "8 word list \<Rightarrow> nat \<Rightarrow> clientEntity option" where
  "decodeEntity buffer offset =
     (case (getUint32 buffer offset, getUint8 buffer (offset + 28), decodeVector buffer (offset + 4),
            getFloat32 buffer (offset + 16), getFloat32 buffer (offset + 20),
            getUint16 buffer (offset + 24), getUint16 buffer (offset + 26)) of
        (Some numericId, Some flags, Some pos, Some rot, Some pit, Some h, Some mh) \<Rightarrow>
          let isPlayer = (flags mod 2 \<noteq> 0)
          in Some \<lparr>ceId = toString numericId,
                   ceName = (if isPlayer then ''Player '' else ''Bot '') @ toString numericId,
                   cePosition = pos, ceRotation = rot, cePitch = pit, ceHp = h, ceMaxHp = mh,
                   ceIsPlayer = isPlayer\<rparr>
      | _ \<Rightarrow> None)"

fun decodeEntities :: "8 word list \<Rightarrow> nat \<Rightarrow> nat \<Rightarrow> clientEntity list option" where
  "decodeEntities buffer offset 0 = Some []"
| "decodeEntities buffer offset (Suc n) =
     (case decodeEntity buffer offset of
        None \<Rightarrow> None
      | Some e \<Rightarrow> map_option ((#) e) (decodeEntities buffer (offset + 29) n))"

fun decodeBullets :: "8 word list \<Rightarrow> nat \<Rightarrow> nat \<Rightarrow> jsvec list option" where
  "decodeBullets buffer offset 0 = Some []"
| "decodeBullets buffer offset (Suc n) =
     (case decodeVector buffer offset of
        None \<Rightarrow> None
      | Some p \<Rightarrow> map_option ((#) p) (decodeBullets buffer (offset + 12) n))"

definition decodeHit :: "8 word list \<Rightarrow> nat \<Rightarrow> wireHit option" where
  "decodeHit buffer offset =
     (case (decodeVector buffer offset, getUint8 buffer (offset + 12)) of
        (Some p, Some b) \<Rightarrow> Some \<lparr>whPosition = p, whHitEntity = (b = 1)\<rparr>
      | _ \<Rightarrow> None)"

fun decodeHits :: "8 word list \<Rightarrow> nat \<Rightarrow> nat \<Rightarrow> wireHit list option" where
  "decodeHits buffer offset 0 = Some []"
| "decodeHits buffer offset (Suc n) =
     (case decodeHit buffer offset of
        None \<Rightarrow> None
      | Some h \<Rightarrow> map_option ((#) h) (decodeHits buffer (offset + 13) n))"

definition decodeStats :: "8 word list \<Rightarrow> nat \<Rightarrow> wireStats option" where
  "decodeStats buffer offset =
     (case (getUint32 buffer offset, getUint32 buffer (offset + 4), getUint16 buffer (offset + 8),
            getFloat32 buffer (offset + 10), getFloat32 buffer (offset + 14),
            getFloat32 buffer (offset + 18), getUint16 buffer (offset + 22),
            getUint8 buffer (offset + 24), getUint8 buffer (offset + 25)) of
        (Some te, Some tob, Some cp, Some t1, Some t2, Some t3, Some ve, Some sm, Some tr) \<Rightarrow>
          Some \<lparr>totalEntities = te, totalObstacles = tob, connectedPlayers = cp,
                tickTimeMsPerSec = t1, losTimeMsPerSec = t2, tickTimeMsAvg = t3,
                visibleEntities = ve, serverModeLos = (sm = 1), tickRate = tr\<rparr>
      | _ \<Rightarrow> None)"

definition decodeUpdate :: "8 word list \<Rightarrow> decodedUpdate option" where
  "decodeUpdate buffer =
     (case decodeVector buffer 1 of
        None \<Rightarrow> None
      | Some myPosition \<Rightarrow>
     (case getUint16 buffer 13 of
        None \<Rightarrow> None
      | Some entityCount \<Rightarrow>
     (case decodeEntities buffer 15 entityCount of
        None \<Rightarrow> None
      | Some decodedEntities \<Rightarrow>
     (let offset = 15 + 29 * entityCount in
      case getUint16 buffer offset of
        None \<Rightarrow> None
      | Some bulletCount \<Rightarrow>
     (case decodeBullets buffer (offset + 2) bulletCount of
        None \<Rightarrow> None
      | Some bullets \<Rightarrow>
     (let offset = offset + 2 + 12 * bulletCount in
      case getUint16 buffer offset of
        None \<Rightarrow> None
      | Some hitCount \<Rightarrow>
     (case decodeHits buffer (offset + 2) hitCount of
        None \<Rightarrow> None
      | Some hits \<Rightarrow>
     (let offset = offset + 2 + 13 * hitCount in
      case decodeStats buffer offset of
        None \<Rightarrow> None
      | Some stats \<Rightarrow>
          Some \<lparr>duMyPosition = myPosition, duEntities = decodedEntities, duBullets = bullets,
                duHits = hits, duStats = stats\<rparr>))))))))"

subsection \<open>The message as the client holds it\<close>

text \<open>\<open>fround\<close> is what a number is after \<open>setFloat32\<close> and \<open>getFloat32\<close>. The message
  received is the message sent with every float field rounded so, every entity's id as its
  decimal string, and the name the decoder adds. A message is valid when the counts and
  the integer fields fit the width of their fields.\<close>

definition fround :: "jsnum \<Rightarrow> jsnum" where
  "fround x = f32_val (f32_bits x)"

definition fround3 :: "jsvec \<Rightarrow> jsvec" where
  "fround3 p = (case p of (x, y, z) \<Rightarrow> (fround x, fround y, fround z))"

definition receivedEntity :: "wireEntity \<Rightarrow> clientEntity" where
  "receivedEntity e =
     \<lparr>ceId = toString (weId e),
      ceName = (if weIsPlayer e then ''Player '' else ''Bot '') @ toString (weId e),
      cePosition = fround3 (wePosition e), ceRotation = fround (weRotation e),
      cePitch = fround (wePitch e), ceHp = weHp e, ceMaxHp = weMaxHp e,
      ceIsPlayer = weIsPlayer e\<rparr>"

definition receivedHit :: "wireHit \<Rightarrow> wireHit" where
  "receivedHit h = h\<lparr>whPosition := fround3 (whPosition h)\<rparr>"

definition receivedStats :: "wireStats \<Rightarrow> wireStats" where
  "receivedStats st =
     st\<lparr>tickTimeMsPerSec := fround (tickTimeMsPerSec st),
        losTimeMsPerSec := fround (losTimeMsPerSec st),
        tickTimeMsAvg := fround (tickTimeMsAvg st)\<rparr>"

definition received :: "updateMessage \<Rightarrow> decodedUpdate" where
  "received m =
     \<lparr>duMyPosition = fround3 (umMyPosition m),
      duEntities = map receivedEntity (umEntities m),
      duBullets = map fround3 (umBullets m),
      duHits = map receivedHit (umHits m),
      duStats = receivedStats (umStats m)\<rparr>"

definition validEntity :: "wireEntity \<Rightarrow> bool" where
  "validEntity e = (weId e < 2 ^ 32 \<and> weHp e < 2 ^ 16 \<and> weMaxHp e < 2 ^ 16)"

definition validStats :: "wireStats \<Rightarrow> bool" where
  "validStats st =
     (totalEntities st < 2 ^ 32 \<and> totalObstacles st < 2 ^ 32 \<and> connectedPlayers st < 2 ^ 16
      \<and> visibleEntities st < 2 ^ 16 \<and> tickRate st < 2 ^ 8)"

definition validUpdate :: "updateMessage \<Rightarrow> bool" where
  "validUpdate m =
     (length (umEntities m) < 2 ^ 16 \<and> length (umBullets m) < 2 ^ 16 \<and> length (umHits m) < 2 ^ 16
      \<and> list_all validEntity (umEntities m) \<and> validStats (umStats m))"

text \<open>Two UPDATE messages: one with a coordinate that is no binary32 number, and one
  whose numbers all are.\<close>

definition quietStats :: wireStats where
  "quietStats = \<lparr>totalEntities = 2, totalObstacles = 0, connectedPlayers = 1,
                  tickTimeMsPerSec = Fin 0, losTimeMsPerSec = Fin 0, tickTimeMsAvg = Fin 0,
                  visibleEntities = 1, serverModeLos = True, tickRate = 30\<rparr>"

definition farMessage :: updateMessage where
  "farMessage =
     \<lparr>umMyPosition = (Fin 16777217, Fin 0, Fin 0),
      umEntities = [\<lparr>weId = 7, wePosition = (Fin 1, Fin 0, Fin 0), weRotation = Fin 0,
                     wePitch = Fin 0, weHp = 100, weMaxHp = 100, weIsPlayer = False\<rparr>],
      umBullets = [], umHits = [], umStats = quietStats\<rparr>"

definition nearMessage :: updateMessage where
  "nearMessage =
     \<lparr>umMyPosition = (Fin 1, Fin 0, Fin 0),
      umEntities = [\<lparr>weId = 1000, wePosition = (Fin 0, Fin 0, Fin 1), weRotation = Fin 0,
                     wePitch = Fin 0, weHp = 80, weMaxHp = 100, weIsPlayer = True\<rparr>],
      umBullets = [(Fin 0, Fin 1, Fin 0)],
      umHits = [\<lparr>whPosition = (Fin 1, Fin 1, Fin 0), whHitEntity = True\<rparr>],
      umStats = quietStats\<rparr>"

section \<open>Auxiliary lemmas\<close>

lemmas geo = TERRAIN_SIZE_def GRID_SIZE_def CELL_SIZE_def HALF_TERRAIN_def INV_CELL_SIZE_def

lemma sqrt_sq_eq:
  fixes a b :: real
  assumes "0 \<le> a" and "a * a = b"
  shows "sqrt b = a"
proof -
  have "sqrt b = sqrt (a * a)" using assms(2) by simp
  also have "\<dots> = \<bar>a\<bar>" by (rule real_sqrt_abs2)
  finally show ?thesis using assms(1) by simp
qed

lemma find_Some_decomp:
  "find P xs = Some x \<longleftrightarrow> (\<exists>pre post. xs = pre @ x # post \<and> P x \<and> (\<forall>y\<in>set pre. \<not> P y))"
proof (induction xs)
  case Nil
  then show ?case by simp
next
  case (Cons a xs)
  show ?case
  proof (cases "P a")
    case True
    have "(\<exists>pre post. a # xs = pre @ x # post \<and> P x \<and> (\<forall>y\<in>set pre. \<not> P y)) \<longleftrightarrow> a = x"
    proof
      assume "\<exists>pre post. a # xs = pre @ x # post \<and> P x \<and> (\<forall>y\<in>set pre. \<not> P y)"
      then obtain pre post where h: "a # xs = pre @ x # post" "\<forall>y\<in>set pre. \<not> P y" by blast
      show "a = x"
      proof (cases pre)
        case Nil
        with h show ?thesis by simp
      next
        case (Cons b pre')
        with h True show ?thesis by auto
      qed
    next
      assume "a = x"
      with True have "a # xs = [] @ x # xs \<and> P x \<and> (\<forall>y\<in>set []. \<not> P y)" by simp
      then show "\<exists>pre post. a # xs = pre @ x # post \<and> P x \<and> (\<forall>y\<in>set pre. \<not> P y)" by blast
    qed
    with True show ?thesis by simp
  next
    case False
    have "(\<exists>pre post. a # xs = pre @ x # post \<and> P x \<and> (\<forall>y\<in>set pre. \<not> P y))
        \<longleftrightarrow> (\<exists>pre post. xs = pre @ x # post \<and> P x \<and> (\<forall>y\<in>set pre. \<not> P y))"
    proof
      assume "\<exists>pre post. a # xs = pre @ x # post \<and> P x \<and> (\<forall>y\<in>set pre. \<not> P y)"
      then obtain pre post where h: "a # xs = pre @ x # post" "P x" "\<forall>y\<in>set pre. \<not> P y" by blast
      show "\<exists>pre post. xs = pre @ x # post \<and> P x \<and> (\<forall>y\<in>set pre. \<not> P y)"
      proof (cases pre)
        case Nil
        with h False show ?thesis by simp
      next
        case (Cons b pre')
        with h have "xs = pre' @ x # post \<and> P x \<and> (\<forall>y\<in>set pre'. \<not> P y)" by simp
        then show ?thesis by blast
      qed
    next
      assume "\<exists>pre post. xs = pre @ x # post \<and> P x \<and> (\<forall>y\<in>set pre. \<not> P y)"
      then obtain pre post where h: "xs = pre @ x # post" "P x" "\<forall>y\<in>set pre. \<not> P y" by blast
      with False have "a # xs = (a # pre) @ x # post \<and> P x \<and> (\<forall>y\<in>set (a # pre). \<not> P y)" by simp
      then show "\<exists>pre post. a # xs = pre @ x # post \<and> P x \<and> (\<forall>y\<in>set pre. \<not> P y)" by blast
    qed
    with False Cons.IH show ?thesis by simp
  qed
qed

lemma set_foldl_setAdd:
  "set (foldl (\<lambda>cs i. setAdd (f i) cs) acc xs) = set acc \<union> f ` set xs"
  by (induction xs arbitrary: acc) (auto simp add: setAdd_def)

lemma set_getCellsAlongRay:
  "set (getCellsAlongRay s e) =
     (let dx = vx e - vx s; dz = vz e - vz s; distance = sqrt (dx * dx + dz * dz);
          steps = \<lceil>distance / CELL_SIZE\<rceil> + 1
      in if distance < 0.001 then {getCellKey (vx s) (vz s)}
         else (\<lambda>i. getCellKey (vx s + dx * (real_of_int i / real_of_int steps))
                                (vz s + dz * (real_of_int i / real_of_int steps))) ` {0..steps})"
  by (simp add: getCellsAlongRay_def Let_def set_foldl_setAdd)

lemma hasLineOfSight_iff:
  "hasLineOfSight s e g \<longleftrightarrow>
     \<not> (\<exists>k c ob. k \<in> set (getCellsAlongRay s e) \<and> map_of (cells g) k = Some c
          \<and> ob \<in> set (cellObstacles c) \<and> rayIntersectsBox s e (opos ob) (osize ob))"
  by (auto simp add: hasLineOfSight_def list_all_iff split: option.splits)

lemma hasLineOfSight_blocked:
  assumes "k \<in> set (getCellsAlongRay s e)" and "map_of (cells g) k = Some c"
    and "ob \<in> set (cellObstacles c)" and "rayIntersectsBox s e (opos ob) (osize ob)"
  shows "\<not> hasLineOfSight s e g"
  using assms unfolding hasLineOfSight_iff by blast

lemma ceil_sqrt_div:
  fixes s :: real
  assumes "(c * real_of_int (n - 1))\<^sup>2 < s" "s \<le> (c * real_of_int n)\<^sup>2" "0 < c" "1 \<le> n"
  shows "\<lceil>sqrt s / c\<rceil> = n"
proof -
  have a: "c * real_of_int (n - 1) < sqrt s"
    using assms by (intro real_less_rsqrt) auto
  have b: "sqrt s \<le> c * real_of_int n"
    using assms by (intro real_le_lsqrt) auto
  show ?thesis using a b assms(3) by (simp add: ceiling_eq_iff field_simps)
qed

lemma slab_bounds:
  fixes a b s d t L :: real
  assumes L: "0 < L" and d: "d \<noteq> 0" and lo: "a \<le> s + t * d" and hi: "s + t * d \<le> b"
  shows "min ((a - s) / (d / L)) ((b - s) / (d / L)) \<le> t * L"
    and "t * L \<le> max ((a - s) / (d / L)) ((b - s) / (d / L))"
proof -
  have e1: "(a - s) / (d / L) = ((a - s) / d) * L" by simp
  have e2: "(b - s) / (d / L) = ((b - s) / d) * L" by simp
  show "min ((a - s) / (d / L)) ((b - s) / (d / L)) \<le> t * L"
  proof (cases "0 < d")
    case True
    then have "(a - s) / d \<le> t" using lo by (simp add: pos_divide_le_eq)
    then have "((a - s) / d) * L \<le> t * L" using L by (intro mult_right_mono) simp_all
    then show ?thesis unfolding e1 e2 by (simp add: min_le_iff_disj)
  next
    case False
    with d have "d < 0" by simp
    then have "(b - s) / d \<le> t" using hi by (simp add: neg_divide_le_eq)
    then have "((b - s) / d) * L \<le> t * L" using L by (intro mult_right_mono) simp_all
    then show ?thesis unfolding e1 e2 by (simp add: min_le_iff_disj)
  qed
  show "t * L \<le> max ((a - s) / (d / L)) ((b - s) / (d / L))"
  proof (cases "0 < d")
    case True
    then have "t \<le> (b - s) / d" using hi by (simp add: pos_le_divide_eq)
    then have "t * L \<le> ((b - s) / d) * L" using L by (intro mult_right_mono) simp_all
    then show ?thesis unfolding e1 e2 by (simp add: le_max_iff_disj)
  next
    case False
    with d have "d < 0" by simp
    then have "t \<le> (a - s) / d" using lo by (simp add: neg_le_divide_eq)
    then have "t * L \<le> ((a - s) / d) * L" using L by (intro mult_right_mono) simp_all
    then show ?thesis unfolding e1 e2 by (simp add: le_max_iff_disj)
  qed
qed

lemma rayIntersectsBox_slabs:
  assumes dX: "dX = vx e - vx s" and dY: "dY = vy e - vy s" and dZ: "dZ = vz e - vz s"
    and L: "L = sqrt (dX * dX + dY * dY + dZ * dZ)"
    and len: "\<not> L < 0.001"
    and tx: "\<bar>dX / L\<bar> > 0.0001" and ty: "\<bar>dY / L\<bar> > 0.0001" and tz: "\<bar>dZ / L\<bar> > 0.0001"
  shows "rayIntersectsBox s e c b \<longleftrightarrow>
     (let lo = max (max (max 0
                 (min ((vx c - vx b / 2 - vx s) / (dX / L)) ((vx c + vx b / 2 - vx s) / (dX / L))))
                 (min ((vy c - vy b / 2 - vy s) / (dY / L)) ((vy c + vy b / 2 - vy s) / (dY / L))))
                 (min ((vz c - vz b / 2 - vz s) / (dZ / L)) ((vz c + vz b / 2 - vz s) / (dZ / L)));
          hi = min (min (min L
                 (max ((vx c - vx b / 2 - vx s) / (dX / L)) ((vx c + vx b / 2 - vx s) / (dX / L))))
                 (max ((vy c - vy b / 2 - vy s) / (dY / L)) ((vy c + vy b / 2 - vy s) / (dY / L))))
                 (max ((vz c - vz b / 2 - vz s) / (dZ / L)) ((vz c + vz b / 2 - vz s) / (dZ / L)))
      in hi \<ge> lo \<and> lo \<le> L)"
  unfolding rayIntersectsBox_def Let_def
  unfolding dX [symmetric] dY [symmetric] dZ [symmetric]
  unfolding L [symmetric]
  using len tx ty tz by simp


lemma sqrt3_bounds:
  fixes a b c :: real
  shows "\<bar>a\<bar> \<le> sqrt (a * a + b * b + c * c)"
    and "\<bar>b\<bar> \<le> sqrt (a * a + b * b + c * c)"
    and "\<bar>c\<bar> \<le> sqrt (a * a + b * b + c * c)"
    and "sqrt (a * a + b * b + c * c) \<le> \<bar>a\<bar> + \<bar>b\<bar> + \<bar>c\<bar>"
proof -
  show "\<bar>a\<bar> \<le> sqrt (a * a + b * b + c * c)"
    by (rule real_le_rsqrt) (simp add: power2_eq_square)
  show "\<bar>b\<bar> \<le> sqrt (a * a + b * b + c * c)"
    by (rule real_le_rsqrt) (simp add: power2_eq_square)
  show "\<bar>c\<bar> \<le> sqrt (a * a + b * b + c * c)"
    by (rule real_le_rsqrt) (simp add: power2_eq_square)
  have nonneg: "0 \<le> \<bar>a\<bar> * \<bar>b\<bar> + \<bar>a\<bar> * \<bar>c\<bar> + \<bar>b\<bar> * \<bar>c\<bar>"
    by (intro add_nonneg_nonneg mult_nonneg_nonneg) simp_all
  have "a * a + b * b + c * c
      \<le> a * a + b * b + c * c + 2 * (\<bar>a\<bar> * \<bar>b\<bar> + \<bar>a\<bar> * \<bar>c\<bar> + \<bar>b\<bar> * \<bar>c\<bar>)"
    using nonneg by simp
  also have "\<dots> = (\<bar>a\<bar> + \<bar>b\<bar> + \<bar>c\<bar>)\<^sup>2"
    by (simp add: power2_eq_square algebra_simps)
  finally have "a * a + b * b + c * c \<le> (\<bar>a\<bar> + \<bar>b\<bar> + \<bar>c\<bar>)\<^sup>2" .
  then show "sqrt (a * a + b * b + c * c) \<le> \<bar>a\<bar> + \<bar>b\<bar> + \<bar>c\<bar>"
    by (intro real_le_lsqrt) simp_all
qed

text \<open>A sufficient condition for the slab test to report a hit: no component of the
  direction is below the threshold, and some point of the segment lies in the box.\<close>

lemma ray_hits_box:
  fixes s e c b :: vector3 and t :: real
  assumes big: "0.001 \<le> \<bar>vx e - vx s\<bar>"
    and tx: "\<bar>vx e - vx s\<bar> > 0.0001 * (\<bar>vx e - vx s\<bar> + \<bar>vy e - vy s\<bar> + \<bar>vz e - vz s\<bar>)"
    and ty: "\<bar>vy e - vy s\<bar> > 0.0001 * (\<bar>vx e - vx s\<bar> + \<bar>vy e - vy s\<bar> + \<bar>vz e - vz s\<bar>)"
    and tz: "\<bar>vz e - vz s\<bar> > 0.0001 * (\<bar>vx e - vx s\<bar> + \<bar>vy e - vy s\<bar> + \<bar>vz e - vz s\<bar>)"
    and t: "0 \<le> t" "t \<le> 1"
    and inx: "vx c - vx b / 2 \<le> vx s + t * (vx e - vx s)" "vx s + t * (vx e - vx s) \<le> vx c + vx b / 2"
    and iny: "vy c - vy b / 2 \<le> vy s + t * (vy e - vy s)" "vy s + t * (vy e - vy s) \<le> vy c + vy b / 2"
    and inz: "vz c - vz b / 2 \<le> vz s + t * (vz e - vz s)" "vz s + t * (vz e - vz s) \<le> vz c + vz b / 2"
  shows "rayIntersectsBox s e c b"
proof -
  define dX where "dX = vx e - vx s"
  define dY where "dY = vy e - vy s"
  define dZ where "dZ = vz e - vz s"
  define L where "L = sqrt (dX * dX + dY * dY + dZ * dZ)"
  note B = sqrt3_bounds [of dX dY dZ, folded L_def]
  have Lpos: "0.001 \<le> L" using big B(1) by (simp add: dX_def)
  then have L0: "0 < L" by simp
  have sum: "0.0001 * L \<le> 0.0001 * (\<bar>dX\<bar> + \<bar>dY\<bar> + \<bar>dZ\<bar>)" using B(4) by simp
  have nz: "dX \<noteq> 0" "dY \<noteq> 0" "dZ \<noteq> 0"
    using tx ty tz by (auto simp add: dX_def dY_def dZ_def)
  have thr: "\<bar>dX / L\<bar> > 0.0001" "\<bar>dY / L\<bar> > 0.0001" "\<bar>dZ / L\<bar> > 0.0001"
    using tx ty tz sum L0 by (simp_all add: dX_def [symmetric] dY_def [symmetric] dZ_def [symmetric] pos_less_divide_eq)
  define lo where "lo = max (max (max 0
                 (min ((vx c - vx b / 2 - vx s) / (dX / L)) ((vx c + vx b / 2 - vx s) / (dX / L))))
                 (min ((vy c - vy b / 2 - vy s) / (dY / L)) ((vy c + vy b / 2 - vy s) / (dY / L))))
                 (min ((vz c - vz b / 2 - vz s) / (dZ / L)) ((vz c + vz b / 2 - vz s) / (dZ / L)))"
  define hi where "hi = min (min (min L
                 (max ((vx c - vx b / 2 - vx s) / (dX / L)) ((vx c + vx b / 2 - vx s) / (dX / L))))
                 (max ((vy c - vy b / 2 - vy s) / (dY / L)) ((vy c + vy b / 2 - vy s) / (dY / L))))
                 (max ((vz c - vz b / 2 - vz s) / (dZ / L)) ((vz c + vz b / 2 - vz s) / (dZ / L)))"
  have R: "rayIntersectsBox s e c b \<longleftrightarrow> hi \<ge> lo \<and> lo \<le> L"
    using rayIntersectsBox_slabs [OF dX_def dY_def dZ_def L_def _ thr, of c b] Lpos
    by (simp add: lo_def hi_def Let_def)
  have sx: "min ((vx c - vx b / 2 - vx s) / (dX / L)) ((vx c + vx b / 2 - vx s) / (dX / L)) \<le> t * L"
       "t * L \<le> max ((vx c - vx b / 2 - vx s) / (dX / L)) ((vx c + vx b / 2 - vx s) / (dX / L))"
    using slab_bounds [OF L0 nz(1), of "vx c - vx b / 2" "vx s" t "vx c + vx b / 2"] inx
    by (simp_all add: dX_def)
  have sy: "min ((vy c - vy b / 2 - vy s) / (dY / L)) ((vy c + vy b / 2 - vy s) / (dY / L)) \<le> t * L"
       "t * L \<le> max ((vy c - vy b / 2 - vy s) / (dY / L)) ((vy c + vy b / 2 - vy s) / (dY / L))"
    using slab_bounds [OF L0 nz(2), of "vy c - vy b / 2" "vy s" t "vy c + vy b / 2"] iny
    by (simp_all add: dY_def)
  have sz: "min ((vz c - vz b / 2 - vz s) / (dZ / L)) ((vz c + vz b / 2 - vz s) / (dZ / L)) \<le> t * L"
       "t * L \<le> max ((vz c - vz b / 2 - vz s) / (dZ / L)) ((vz c + vz b / 2 - vz s) / (dZ / L))"
    using slab_bounds [OF L0 nz(3), of "vz c - vz b / 2" "vz s" t "vz c + vz b / 2"] inz
    by (simp_all add: dZ_def)
  have tL: "0 \<le> t * L" "t * L \<le> L"
    using t L0 by (simp_all add: mult_le_cancel_right1)
  have "lo \<le> t * L" unfolding lo_def using sx(1) sy(1) sz(1) tL(1) by simp
  moreover have "t * L \<le> hi" unfolding hi_def using sx(2) sy(2) sz(2) tL(2) by simp
  ultimately show ?thesis using R tL by linarith
qed


subsection \<open>The operations on JavaScript numbers\<close>

lemma js_fin:
  "js_add (Fin a) (Fin b) = Fin (a + b)"
  "js_sub (Fin a) (Fin b) = Fin (a - b)"
  "js_mul (Fin a) (Fin b) = Fin (a * b)"
  "js_neg (Fin a) = Fin (- a)"
  "js_abs (Fin a) = Fin \<bar>a\<bar>"
  "js_floor (Fin a) = Fin (real_of_int \<lfloor>a\<rfloor>)"
  "js_ceil (Fin a) = Fin (real_of_int \<lceil>a\<rceil>)"
  "js_lt (Fin a) (Fin b) \<longleftrightarrow> a < b"
  "js_gt (Fin a) (Fin b) \<longleftrightarrow> a > b"
  "js_ge (Fin a) (Fin b) \<longleftrightarrow> a \<ge> b"
  "js_le (Fin a) (Fin b) \<longleftrightarrow> a \<le> b"
  "js_min (Fin a) (Fin b) = Fin (min a b)"
  "js_max (Fin a) (Fin b) = Fin (max a b)"
  by (auto simp add: js_add_def js_sub_def js_mul_def js_neg_def js_abs_def js_floor_def js_ceil_def
      js_lt_def js_gt_def js_ge_def js_le_def js_min_def js_max_def min_def max_def)

lemma js_div_fin: "b \<noteq> 0 \<Longrightarrow> js_div (Fin a) (Fin b) = Fin (a / b)"
  by (simp add: js_div_def)

lemma js_sqrt_fin: "0 \<le> a \<Longrightarrow> js_sqrt (Fin a) = Fin (sqrt a)"
  by (simp add: js_sqrt_def)

lemma js_nan:
  "js_add NaN x = NaN" "js_add x NaN = NaN"
  "js_sub NaN x = NaN" "js_sub x NaN = NaN"
  "js_mul NaN x = NaN" "js_mul x NaN = NaN"
  "js_div NaN x = NaN" "js_div x NaN = NaN"
  "js_neg NaN = NaN" "js_sqrt NaN = NaN" "js_ceil NaN = NaN" "js_floor NaN = NaN"
  "\<not> js_lt NaN x" "\<not> js_lt x NaN" "\<not> js_gt NaN x" "\<not> js_gt x NaN"
  by (cases x; simp add: js_add_def js_sub_def js_mul_def js_neg_def js_div_def js_sqrt_def
      js_ceil_def js_floor_def js_lt_def js_gt_def)+

lemma jsKey_inj: "jsKey k = jsKey k' \<longleftrightarrow> k = k'"
  by (cases k; cases k') (simp add: jsKey_def)

subsection \<open>The occlusion scenario evaluated\<close>

lemma occupied_wallS2: "getOccupiedCells wallS2 = [(201,199),(201,200),(202,199),(202,200)]"
  by (simp add: getOccupiedCells_def wallS2_def geo Let_def upto_rec_numeral)

lemma cells_wallS2:
  "cells (createSpatialGrid [wallS2]) =
     [((201,199), \<lparr>cellObstacles = [wallS2], cellEntities = {}\<rparr>),
      ((201,200), \<lparr>cellObstacles = [wallS2], cellEntities = {}\<rparr>),
      ((202,199), \<lparr>cellObstacles = [wallS2], cellEntities = {}\<rparr>),
      ((202,200), \<lparr>cellObstacles = [wallS2], cellEntities = {}\<rparr>)]"
  by (simp add: createSpatialGrid_def occupied_wallS2 pushObstacle_def emptyCell_def)

text \<open>The rays from the eye at (0, 3, 0) to the four silhouette points (20, y, z) of a
  target at (20, 0, 0): sample 3 of 6 is the point (10, z / 2), in a cell of the wall, and
  the middle of each ray lies in the wall.\<close>

lemma wallS2_blocks:
  assumes z: "z = 1 \<or> z = - 1" and y: "y = 3.6 \<or> y = 0"
  shows "\<not> hasLineOfSight \<lparr>vx = 0, vy = 3, vz = 0\<rparr> \<lparr>vx = 20, vy = y, vz = z\<rparr>
            (createSpatialGrid [wallS2])"
proof -
  let ?s = "\<lparr>vx = 0, vy = 3, vz = 0\<rparr>" and ?e = "\<lparr>vx = 20, vy = y, vz = z\<rparr>"
  have zz: "z * z = 1" using z by auto
  have c: "\<lceil>sqrt 401 / 5\<rceil> = (5::int)" by (rule ceil_sqrt_div) simp_all
  have "1 < sqrt 401" by (rule real_less_rsqrt) simp
  then have d: "\<not> sqrt 401 * 1000 < 1" by linarith
  have key: "getCellKey 10 (z / 2) = (202, if z = 1 then 200 else 199)"
    using z by (auto simp add: getCellKey_def geo)
  have "getCellKey (vx ?s + (vx ?e - vx ?s) * (real_of_int 3 / real_of_int 6))
           (vz ?s + (vz ?e - vz ?s) * (real_of_int 3 / real_of_int 6)) \<in> set (getCellsAlongRay ?s ?e)"
    unfolding set_getCellsAlongRay by (simp add: Let_def zz geo c d del: of_int_numeral)
  then have k: "(202, if z = 1 then 200 else 199) \<in> set (getCellsAlongRay ?s ?e)"
    using key by simp
  have m: "map_of (cells (createSpatialGrid [wallS2])) (202, if z = 1 then 200 else 199)
         = Some \<lparr>cellObstacles = [wallS2], cellEntities = {}\<rparr>"
    by (simp add: cells_wallS2)
  have r: "rayIntersectsBox ?s ?e (opos wallS2) (osize wallS2)"
    by (rule ray_hits_box [where t = "1/2"]) (use z y in \<open>auto simp add: wallS2_def\<close>)
  show ?thesis
    by (rule hasLineOfSight_blocked [OF k m _ r]) simp
qed

lemma wallS2_hides:
  "\<not> canSeeEntity \<lparr>vx = 0, vy = 0, vz = 0\<rparr> \<lparr>vx = 20, vy = 0, vz = 0\<rparr> (createSpatialGrid [wallS2])"
  using wallS2_blocks [of 1 "3.6"] wallS2_blocks [of "-1" "3.6"] wallS2_blocks [of 1 0]
    wallS2_blocks [of "-1" 0]
  by (simp add: canSeeEntity_def Let_def ENTITY_RADIUS_def ENTITY_HEIGHT_def EYE_HEIGHT_def)

section \<open>C3: the four rays of canSeeEntity\<close>



section \<open>C5: the entity test of a bullet\<close>

text \<open>
  Claim C5 says that a bullet at a point registers a hit on an entity other than its
  owner exactly when the XZ distance is below ENTITY_RADIUS + BULLET_RADIUS = 1.3 and the
  point's height is within 4 of the entity's feet. It fails on the code: an entity at the
  origin is hit by a bullet of another owner at XZ distance 1.5.
\<close>

theorem checkEntityAt_radius_counterexample:
  "\<not> (checkEntityAt [(0, mkEntity 0 False \<lparr>vx = 0, vy = 0, vz = 0\<rparr>)] 1000 (3/2) 1 0 = 0
      \<longleftrightarrow> sqrt ((3/2 - 0) * (3/2 - 0) + (0 - 0) * (0 - 0)) < ENTITY_RADIUS + BULLET_RADIUS
          \<and> (1::real) \<ge> 0 \<and> (1::real) \<le> 0 + 4)"
proof -
  have s: "sqrt (9/4) = 3/2" by (rule sqrt_sq_eq) simp_all
  show ?thesis
    by (simp add: checkEntityAt_def mkEntity_def ENTITY_RADIUS_def BULLET_RADIUS_def s)
qed

text \<open>
  Claim C5, amended. The test uses its own radius 1.5, so the bound is 1.5 + 0.3 = 1.8,
  and the hit goes to the first entity of the table that passes the test: a hit on the
  entity \<open>i\<close> is registered exactly when \<open>i\<close> is not the owner, the XZ distance to it is
  below 1.8, the point's height is between its feet and its feet plus 4, and no entity
  before it in the table (other than the owner) passes the same test. No hit (-1) is
  registered exactly when no entity other than the owner passes it.
\<close>

theorem checkEntityAt_first_hit:
  "(checkEntityAt ents owner px py pz = int i \<longleftrightarrow>
     (\<exists>pre ent post. ents = pre @ (i, ent) # post \<and> i \<noteq> owner
        \<and> sqrt ((px - vx (position ent)) * (px - vx (position ent))
               + (pz - vz (position ent)) * (pz - vz (position ent))) < 1.5 + 0.3
        \<and> vy (position ent) \<le> py \<and> py \<le> vy (position ent) + 4
        \<and> (\<forall>(j, f) \<in> set pre. j = owner \<or>
              \<not> (sqrt ((px - vx (position f)) * (px - vx (position f))
                     + (pz - vz (position f)) * (pz - vz (position f))) < 1.5 + 0.3
                 \<and> vy (position f) \<le> py \<and> py \<le> vy (position f) + 4))))
   \<and> (checkEntityAt ents owner px py pz = - 1 \<longleftrightarrow>
     list_all (\<lambda>(j, f). j = owner \<or>
              \<not> (sqrt ((px - vx (position f)) * (px - vx (position f))
                     + (pz - vz (position f)) * (pz - vz (position f))) < 1.5 + 0.3
                 \<and> vy (position f) \<le> py \<and> py \<le> vy (position f) + 4)) ents)"
proof -
  define P where "P = (\<lambda>(j::nat, f::entity). j \<noteq> owner \<and>
     sqrt ((px - vx (position f)) * (px - vx (position f))
          + (pz - vz (position f)) * (pz - vz (position f))) < 1.5 + 0.3
     \<and> vy (position f) \<le> py \<and> py \<le> vy (position f) + 4)"
  have c: "checkEntityAt ents owner px py pz = (case find P ents of None \<Rightarrow> - 1 | Some (j, f) \<Rightarrow> int j)"
    by (simp add: checkEntityAt_def P_def BULLET_RADIUS_def Let_def conj_ac)
  have "checkEntityAt ents owner px py pz = int i \<longleftrightarrow> (\<exists>ent. find P ents = Some (i, ent))"
    unfolding c by (auto split: option.splits)
  also have "\<dots> \<longleftrightarrow> (\<exists>ent pre post. ents = pre @ (i, ent) # post \<and> P (i, ent) \<and> (\<forall>y\<in>set pre. \<not> P y))"
    by (simp add: find_Some_decomp)
  also have "\<dots> \<longleftrightarrow> (\<exists>pre ent post. ents = pre @ (i, ent) # post \<and> i \<noteq> owner
        \<and> sqrt ((px - vx (position ent)) * (px - vx (position ent))
               + (pz - vz (position ent)) * (pz - vz (position ent))) < 1.5 + 0.3
        \<and> vy (position ent) \<le> py \<and> py \<le> vy (position ent) + 4
        \<and> (\<forall>(j, f) \<in> set pre. j = owner \<or>
              \<not> (sqrt ((px - vx (position f)) * (px - vx (position f))
                     + (pz - vz (position f)) * (pz - vz (position f))) < 1.5 + 0.3
                 \<and> vy (position f) \<le> py \<and> py \<le> vy (position f) + 4)))"
    unfolding P_def by (auto; blast)
  finally have hit: "checkEntityAt ents owner px py pz = int i \<longleftrightarrow>
     (\<exists>pre ent post. ents = pre @ (i, ent) # post \<and> i \<noteq> owner
        \<and> sqrt ((px - vx (position ent)) * (px - vx (position ent))
               + (pz - vz (position ent)) * (pz - vz (position ent))) < 1.5 + 0.3
        \<and> vy (position ent) \<le> py \<and> py \<le> vy (position ent) + 4
        \<and> (\<forall>(j, f) \<in> set pre. j = owner \<or>
              \<not> (sqrt ((px - vx (position f)) * (px - vx (position f))
                     + (pz - vz (position f)) * (pz - vz (position f))) < 1.5 + 0.3
                 \<and> vy (position f) \<le> py \<and> py \<le> vy (position f) + 4)))" .
  have "checkEntityAt ents owner px py pz = - 1 \<longleftrightarrow> find P ents = None"
    unfolding c by (auto split: option.splits)
  also have "\<dots> \<longleftrightarrow> list_all (\<lambda>y. \<not> P y) ents"
    by (auto simp add: find_None_iff list_all_iff)
  also have "(\<lambda>y. \<not> P y) = (\<lambda>(j, f). j = owner \<or>
              \<not> (sqrt ((px - vx (position f)) * (px - vx (position f))
                     + (pz - vz (position f)) * (pz - vz (position f))) < 1.5 + 0.3
                 \<and> vy (position f) \<le> py \<and> py \<le> vy (position f) + 4))"
    unfolding P_def by auto
  finally have miss: "checkEntityAt ents owner px py pz = - 1 \<longleftrightarrow>
     list_all (\<lambda>(j, f). j = owner \<or>
              \<not> (sqrt ((px - vx (position f)) * (px - vx (position f))
                     + (pz - vz (position f)) * (pz - vz (position f))) < 1.5 + 0.3
                 \<and> vy (position f) \<le> py \<and> py \<le> vy (position f) + 4)) ents" .
  from hit miss show ?thesis by blast
qed

text \<open>Two bots stand near the point (1.5, 1, 0): bot 0 at the origin (XZ distance 1.5,
  within 1.8) and bot 1 at (1, 0, 0). The owner is player 1000. The hit goes to bot 0,
  the first in the table, and a point far away hits nobody.\<close>

theorem checkEntityAt_first_hit_witness:
  "checkEntityAt [(0, mkEntity 0 False \<lparr>vx = 0, vy = 0, vz = 0\<rparr>),
                  (1, mkEntity 1 False \<lparr>vx = 1, vy = 0, vz = 0\<rparr>)] 1000 (3/2) 1 0 = int 0
   \<and> checkEntityAt [(0, mkEntity 0 False \<lparr>vx = 0, vy = 0, vz = 0\<rparr>),
                  (1, mkEntity 1 False \<lparr>vx = 1, vy = 0, vz = 0\<rparr>)] 1000 50 1 0 = - 1"
proof -
  let ?ents = "[(0, mkEntity 0 False \<lparr>vx = 0, vy = 0, vz = 0\<rparr>),
                (1, mkEntity 1 False \<lparr>vx = 1, vy = 0, vz = 0\<rparr>)]"
  have s1: "sqrt (9/4) = 3/2" by (rule sqrt_sq_eq) simp_all
  have s2: "sqrt 2500 = 50" by (rule sqrt_sq_eq) simp_all
  have s3: "sqrt 2401 = 49" by (rule sqrt_sq_eq) simp_all
  have "\<exists>pre ent post. ?ents = pre @ (0, ent) # post \<and> (0::nat) \<noteq> 1000
        \<and> sqrt ((3/2 - vx (position ent)) * (3/2 - vx (position ent))
               + (0 - vz (position ent)) * (0 - vz (position ent))) < 1.5 + 0.3
        \<and> vy (position ent) \<le> 1 \<and> 1 \<le> vy (position ent) + 4
        \<and> (\<forall>(j, f) \<in> set pre. j = 1000 \<or>
              \<not> (sqrt ((3/2 - vx (position f)) * (3/2 - vx (position f))
                     + (0 - vz (position f)) * (0 - vz (position f))) < 1.5 + 0.3
                 \<and> vy (position f) \<le> 1 \<and> 1 \<le> vy (position f) + 4))"
    by (rule exI [of _ "[]"], rule exI [of _ "mkEntity 0 False \<lparr>vx = 0, vy = 0, vz = 0\<rparr>"],
        rule exI [of _ "[(1, mkEntity 1 False \<lparr>vx = 1, vy = 0, vz = 0\<rparr>)]"])
       (simp add: mkEntity_def s1)
  then have a: "checkEntityAt ?ents 1000 (3/2) 1 0 = int 0"
    using checkEntityAt_first_hit [of ?ents 1000 "3/2" 1 0 0] by blast
  have "list_all (\<lambda>(j, f). j = 1000 \<or>
              \<not> (sqrt ((50 - vx (position f)) * (50 - vx (position f))
                     + (0 - vz (position f)) * (0 - vz (position f))) < 1.5 + 0.3
                 \<and> vy (position f) \<le> 1 \<and> 1 \<le> vy (position f) + 4)) ?ents"
    by (simp add: mkEntity_def s2 s3)
  then have b: "checkEntityAt ?ents 1000 50 1 0 = - 1"
    using checkEntityAt_first_hit [of ?ents 1000 50 1 0 0] by blast
  from a b show ?thesis by simp
qed

section \<open>C2: the cells along a ray\<close>

lemma occupied_cornerCrate: "getOccupiedCells cornerCrate = [(200, 201)]"
  by (simp add: getOccupiedCells_def cornerCrate_def geo Let_def)

lemma cells_cornerCrate:
  "cells (createSpatialGrid [cornerCrate]) = [((200, 201), \<lparr>cellObstacles = [cornerCrate], cellEntities = {}\<rparr>)]"
  by (simp add: createSpatialGrid_def occupied_cornerCrate pushObstacle_def emptyCell_def)

lemma cells_corner_ray:
  "getCellsAlongRay \<lparr>vx = 4, vy = 3, vz = 4.9\<rparr> \<lparr>vx = 6, vy = 3.1, vz = 5.3\<rparr> = [(200, 200), (201, 201)]"
proof -
  have c: "\<lceil>sqrt (104/25) / 5\<rceil> = (1::int)" by (rule ceil_sqrt_div) simp_all
  have "1 < sqrt (104/25)" by (rule real_less_rsqrt) simp
  then have d: "\<not> sqrt (104/25) * 1000 < 1" by linarith
  have u: "[0..2::int] = [0, 1, 2]" by code_simp
  show ?thesis
    by (simp add: getCellsAlongRay_def Let_def geo c d getCellKey_def u setAdd_def)
qed

text \<open>
  Claim C2 says that \<open>getCellsAlongRay\<close> returns every grid cell that the XZ projection
  of the segment touches. The function samples the segment at \<open>steps + 1\<close> evenly
  spaced points and can step over a cell near a corner. The segment from (4, 3, 4.9) to
  (6, 3.1, 5.3) is sampled at its two ends and its middle, in the cells (200, 200),
  (201, 201) and (201, 201); at three eighths of its length it is at (4.75, 5.05), in the
  cell (200, 201), which is not returned. A crate standing in that cell only is crossed by
  the segment, and \<open>hasLineOfSight\<close>, which looks only into the returned cells, reports
  the line clear.
\<close>

theorem getCellsAlongRay_omits_pierced_cell:
  "getCellsAlongRay \<lparr>vx = 4, vy = 3, vz = 4.9\<rparr> \<lparr>vx = 6, vy = 3.1, vz = 5.3\<rparr> = [(200, 200), (201, 201)]
   \<and> getCellKey (4 + (6 - 4) * (3/8)) (4.9 + (5.3 - 4.9) * (3/8)) = (200, 201)
   \<and> map_of (cells (createSpatialGrid [cornerCrate])) (200, 201)
       = Some \<lparr>cellObstacles = [cornerCrate], cellEntities = {}\<rparr>
   \<and> rayIntersectsBox \<lparr>vx = 4, vy = 3, vz = 4.9\<rparr> \<lparr>vx = 6, vy = 3.1, vz = 5.3\<rparr>
         (opos cornerCrate) (osize cornerCrate)
   \<and> hasLineOfSight \<lparr>vx = 4, vy = 3, vz = 4.9\<rparr> \<lparr>vx = 6, vy = 3.1, vz = 5.3\<rparr>
         (createSpatialGrid [cornerCrate])"
proof -
  have k: "getCellKey (4 + (6 - 4) * (3/8)) (4.9 + (5.3 - 4.9) * (3/8)) = (200, 201)"
    by (simp add: getCellKey_def geo)
  have m: "map_of (cells (createSpatialGrid [cornerCrate])) (200, 201)
       = Some \<lparr>cellObstacles = [cornerCrate], cellEntities = {}\<rparr>"
    by (simp add: cells_cornerCrate)
  have r: "rayIntersectsBox \<lparr>vx = 4, vy = 3, vz = 4.9\<rparr> \<lparr>vx = 6, vy = 3.1, vz = 5.3\<rparr>
         (opos cornerCrate) (osize cornerCrate)"
    by (rule ray_hits_box [where t = "3/8"]) (simp_all add: cornerCrate_def)
  have h: "hasLineOfSight \<lparr>vx = 4, vy = 3, vz = 4.9\<rparr> \<lparr>vx = 6, vy = 3.1, vz = 5.3\<rparr>
         (createSpatialGrid [cornerCrate])"
    by (simp add: hasLineOfSight_def cells_corner_ray cells_cornerCrate)
  from cells_corner_ray k m r h show ?thesis by simp
qed

section \<open>C6: the order of wall-sliding\<close>

lemma occupied_cornerWall: "getOccupiedCells cornerWall = [(201,201),(201,202),(202,201),(202,202)]"
  by (simp add: getOccupiedCells_def cornerWall_def geo Let_def upto_rec_numeral)

lemma cells_cornerWall:
  "cells (createSpatialGrid [cornerWall]) =
     [((201,201), \<lparr>cellObstacles = [cornerWall], cellEntities = {}\<rparr>),
      ((201,202), \<lparr>cellObstacles = [cornerWall], cellEntities = {}\<rparr>),
      ((202,201), \<lparr>cellObstacles = [cornerWall], cellEntities = {}\<rparr>),
      ((202,202), \<lparr>cellObstacles = [cornerWall], cellEntities = {}\<rparr>)]"
  by (simp add: createSpatialGrid_def occupied_cornerWall pushObstacle_def emptyCell_def)

lemma cache_cornerWall:
  "map_of (buildNearbyObstaclesCache (createSpatialGrid [cornerWall])) (201, 201) = Some [cornerWall]"
  by (simp add: buildNearbyObstaclesCache_def cells_cornerWall neighbourKeys_def setAdd_def Let_def)


lemma cache_cornerWall_lookup:
  "getNearbyObstacles (buildNearbyObstaclesCache (createSpatialGrid [cornerWall])) 6.9 7.2 = [cornerWall]"
  "getNearbyObstacles (buildNearbyObstaclesCache (createSpatialGrid [cornerWall])) 6.9 6 = [cornerWall]"
  "getNearbyObstacles (buildNearbyObstaclesCache (createSpatialGrid [cornerWall])) 6 7.2 = [cornerWall]"
  by (simp_all add: getNearbyObstacles_def getCellCoords_def geo cache_cornerWall)

lemma player_corner_collisions:
  "playerCheckCollision (buildNearbyObstaclesCache (createSpatialGrid [cornerWall])) 6.9 7.2"
  "\<not> playerCheckCollision (buildNearbyObstaclesCache (createSpatialGrid [cornerWall])) 6.9 6"
  "\<not> playerCheckCollision (buildNearbyObstaclesCache (createSpatialGrid [cornerWall])) 6 7.2"
  unfolding playerCheckCollision_def Let_def cache_cornerWall_lookup
  by (simp_all add: TERRAIN_SIZE_def cornerWall_def isSolid_def)

text \<open>
  Claim C6 says that wall-sliding tries the full step, then the X-only step, and the Z-only
  step only if the X-only step collides too, so that the z coordinate stays unchanged
  whenever the full step collides and the X-only step does not. In the code the two
  single-axis tests are independent statements. At a convex corner both succeed: a player
  at (6, 6) moving by (0.9, 1.2) towards the wall around (10, 10) (inflated by the player
  radius to the open square from 6.5 to 13.5) collides on the full step to (6.9, 7.2), is
  free on the X-only step to (6.9, 6) and on the Z-only step to (6, 7.2), and ends at
  (6.9, 7.2): z has changed, and the player stands at the very place the collision test
  rejected.
\<close>

theorem player_slide_moves_on_both_axes:
  "playerCheckCollision (buildNearbyObstaclesCache (createSpatialGrid [cornerWall])) 6.9 7.2
   \<and> \<not> playerCheckCollision (buildNearbyObstaclesCache (createSpatialGrid [cornerWall])) 6.9 6
   \<and> playerFinalPosition (buildNearbyObstaclesCache (createSpatialGrid [cornerWall])) 0.03
         \<lparr>mx = 0.6, mz = 0.8\<rparr> \<lparr>vx = 6, vy = 2, vz = 6\<rparr> = (6.9, 7.2)"
proof -
  have n: "(6::real) + 0.6 * 50 * 0.03 = 6.9" "(6::real) + 0.8 * 50 * 0.03 = 7.2" by simp_all
  have "playerFinalPosition (buildNearbyObstaclesCache (createSpatialGrid [cornerWall])) 0.03
         \<lparr>mx = 0.6, mz = 0.8\<rparr> \<lparr>vx = 6, vy = 2, vz = 6\<rparr> = (6.9, 7.2)"
    unfolding playerFinalPosition_def Let_def PLAYER_SPEED_def vector2.simps vector3.simps n
    using player_corner_collisions by simp
  with player_corner_collisions show ?thesis by simp
qed

text \<open>The same for bots, in general: when the full step collides and each single-axis
  step is free, the bot ends on the full step.\<close>

lemma updateBot_slides_on_both_axes:
  assumes r: "fastRandom rng0 = (r1, rng1)" and noturn: "\<not> r1 < 0.02"
    and dx: "dx = fastSin (rotation b) * 5 * deltaTime" and dz: "dz = fastCos (rotation b) * 5 * deltaTime"
    and inside: "\<bar>vx (position b) + dx\<bar> \<le> 950" "\<bar>vz (position b) + dz\<bar> \<le> 950"
    and full: "checkCollision (vx (position b) + dx) (vz (position b) + dz) cache"
    and xfree: "dx \<noteq> 0" "\<not> checkCollision (vx (position b) + dx) (vz (position b)) cache"
    and zfree: "dz \<noteq> 0" "\<not> checkCollision (vx (position b)) (vz (position b) + dz) cache"
  shows "vx (position (fst (updateBot b deltaTime cache rng0))) = vx (position b) + dx
       \<and> vz (position (fst (updateBot b deltaTime cache rng0))) = vz (position b) + dz"
  using assms
  by (simp add: updateBot_def Let_def TERRAIN_SIZE_def split: prod.splits)

section \<open>The broadcast of a tick: shared lemmas\<close>

lemma getVisibleEntities_iff:
  "i \<in> set (getVisibleEntities viewerPos (map (\<lambda>(j, ent). (j, position ent)) ents) g viewDist los viewerId)
   \<longleftrightarrow> (\<exists>ent. (i, ent) \<in> set ents \<and> i \<noteq> viewerId
          \<and> (vx (position ent) - vx viewerPos) * (vx (position ent) - vx viewerPos)
            + (vy (position ent) - vy viewerPos) * (vy (position ent) - vy viewerPos)
            + (vz (position ent) - vz viewerPos) * (vz (position ent) - vz viewerPos)
            \<le> viewDist * viewDist
          \<and> (\<not> los \<or> canSeeEntity viewerPos (position ent) g))"
  by (auto simp add: getVisibleEntities_def Let_def image_iff not_less split: if_splits) force+

lemma getVisibleEntities_in_table:
  assumes "i \<in> set (getVisibleEntities viewerPos (map (\<lambda>(j, ent). (j, position ent)) ents) g viewDist los viewerId)"
  shows "map_of ents i \<noteq> None"
proof -
  from assms obtain ent where "(i, ent) \<in> set ents"
    unfolding getVisibleEntities_iff by blast
  then have "i \<in> fst ` set ents" by force
  then show ?thesis by (simp add: map_of_eq_None_iff)
qed

lemma graceStep_ids:
  "set (fst (foldl (graceStep vis ents) (acc, m) entries))
     = set acc \<union> {i \<in> fst ` set entries. i \<notin> set vis \<and> map_of ents i \<noteq> None}"
proof (induction entries arbitrary: acc m)
  case Nil
  then show ?case by simp
next
  case (Cons a entries)
  obtain k n where a: "a = (k, n)" by (cases a)
  show ?case
  proof (cases "k \<notin> set vis \<and> map_of ents k \<noteq> None")
    case True
    then have "graceStep vis ents (acc, m) a
        = (acc @ [k], if n \<le> 1 then AList.delete k m else AList.update k (n - 1) m)"
      by (simp add: graceStep_def a)
    then show ?thesis using Cons.IH True by (auto simp add: a)
  next
    case False
    then have "graceStep vis ents (acc, m) a = (acc, m)"
      by (auto simp add: graceStep_def a)
    then show ?thesis using Cons.IH False by (auto simp add: a)
  qed
qed

lemma clientVisible_ids:
  "set (fst (clientVisible ents g client clientPos graceMap0))
     = set (getVisibleEntities clientPos (map (\<lambda>(j, ent). (j, position ent)) ents) g
              (viewDistance client) (losMode client) (cid client))
       \<union> {i \<in> fst ` set graceMap0.
            i \<notin> set (getVisibleEntities clientPos (map (\<lambda>(j, ent). (j, position ent)) ents) g
                        (viewDistance client) (losMode client) (cid client))
            \<and> map_of ents i \<noteq> None}"
  by (simp add: clientVisible_def Let_def split_beta graceStep_ids)

lemma buildEntities_Some:
  assumes "\<forall>i \<in> set ids. map_of ents i \<noteq> None"
  shows "buildEntities ents ids = Some (map (\<lambda>i. viewOf (the (map_of ents i))) ids)"
  using assms by (induction ids) auto

lemma clientVisible_in_table:
  assumes "i \<in> set (fst (clientVisible ents g client clientPos graceMap0))"
  shows "map_of ents i \<noteq> None"
  using assms getVisibleEntities_in_table unfolding clientVisible_ids by blast

lemma graceStep_map:
  assumes "\<forall>(k, n) \<in> set entries. n \<le> 1"
  shows "map_of (snd (foldl (graceStep vis ents) (acc, m) entries))
     = (\<lambda>k. if k \<in> fst ` set entries \<and> k \<notin> set vis \<and> map_of ents k \<noteq> None then None
             else map_of m k)"
  using assms
proof (induction entries arbitrary: acc m)
  case Nil
  then show ?case by simp
next
  case (Cons a entries)
  obtain k n where a: "a = (k, n)" by (cases a)
  from Cons.prems a have n: "n \<le> 1" and rest: "\<forall>(k, n) \<in> set entries. n \<le> 1" by auto
  show ?case
  proof (cases "k \<notin> set vis \<and> map_of ents k \<noteq> None")
    case True
    then have "graceStep vis ents (acc, m) a = (acc @ [k], AList.delete k m)"
      using n by (simp add: graceStep_def a)
    then show ?thesis
      using Cons.IH [OF rest, of "acc @ [k]" "AList.delete k m"] True
      by (auto simp add: a delete_conv' fun_eq_iff)
  next
    case False
    then have "graceStep vis ents (acc, m) a = (acc, m)"
      by (auto simp add: graceStep_def a)
    then show ?thesis
      using Cons.IH [OF rest, of acc m] False
      by (auto simp add: a fun_eq_iff)
  qed
qed

lemma foldl_update_map:
  "map_of (foldl (\<lambda>m i. AList.update i v m) m ids)
     = (\<lambda>k. if k \<in> set ids then Some v else map_of m k)"
  by (induction ids arbitrary: m) (auto simp add: update_conv' fun_eq_iff)

text \<open>The grace map after a tick, when no counter in it exceeded one: the ids visible
  in the tick, with a fresh counter, and the old entries of ids that are gone from the
  entity table.\<close>

lemma clientVisible_grace:
  assumes "\<forall>(k, n) \<in> set graceMap0. n \<le> 1"
  shows "map_of (snd (clientVisible ents g client clientPos graceMap0))
     = (\<lambda>k. if k \<in> set (getVisibleEntities clientPos (map (\<lambda>(j, ent). (j, position ent)) ents) g
                         (viewDistance client) (losMode client) (cid client))
             then Some LOS_GRACE_TICKS
             else if map_of ents k \<noteq> None then None else map_of graceMap0 k)"
proof -
  let ?vis = "getVisibleEntities clientPos (map (\<lambda>(j, ent). (j, position ent)) ents) g
                         (viewDistance client) (losMode client) (cid client)"
  have "map_of (snd (clientVisible ents g client clientPos graceMap0))
      = (\<lambda>k. if k \<in> set ?vis then Some LOS_GRACE_TICKS
              else map_of (snd (foldl (graceStep ?vis ents) (?vis, graceMap0) graceMap0)) k)"
    by (simp add: clientVisible_def Let_def split_beta foldl_update_map)
  also have "\<dots> = (\<lambda>k. if k \<in> set ?vis then Some LOS_GRACE_TICKS
             else if map_of ents k \<noteq> None then None else map_of graceMap0 k)"
    unfolding graceStep_map [OF assms]
    by (auto simp add: fun_eq_iff map_of_eq_None_iff)
  finally show ?thesis .
qed

lemma clientVisible_grace_bound:
  assumes "\<forall>k n. map_of graceMap0 k = Some n \<longrightarrow> n \<le> 1" and "\<forall>(k, n) \<in> set graceMap0. n \<le> 1"
  shows "\<forall>k n. map_of (snd (clientVisible ents g client clientPos graceMap0)) k = Some n \<longrightarrow> n \<le> 1"
  using assms(1) unfolding clientVisible_grace [OF assms(2)]
  by (auto simp add: LOS_GRACE_TICKS_def split: if_splits)

lemma classical_tick_wall:
  "clientVisible duelTable (createSpatialGrid [wallS2]) (losClient False) \<lparr>vx = 0, vy = 0, vz = 0\<rparr> []
     = ([0], [(0, 1)])"
  by (simp add: clientVisible_def getVisibleEntities_def duelTable_def losClient_def mkEntity_def
        VIEW_DISTANCE_def LOS_GRACE_TICKS_def Let_def)

lemma los_visible_wall:
  "getVisibleEntities \<lparr>vx = 0, vy = 0, vz = 0\<rparr> (map (\<lambda>(i, ent). (i, position ent)) duelTable)
     (createSpatialGrid [wallS2]) (viewDistance (losClient True)) (losMode (losClient True))
     (cid (losClient True)) = []"
  by (simp add: getVisibleEntities_def duelTable_def losClient_def mkEntity_def
        VIEW_DISTANCE_def Let_def wallS2_hides)

lemma los_tick_wall:
  "clientVisible duelTable (createSpatialGrid [wallS2]) (losClient True) \<lparr>vx = 0, vy = 0, vz = 0\<rparr> [(0, 1)]
     = ([0], [])"
  unfolding clientVisible_def Let_def los_visible_wall
  by (simp add: graceStep_def duelTable_def)

lemma teleportedBot_eq:
  "teleportedBot = \<lparr>eid = 0, position = \<lparr>vx = 720, vy = getHeightAt 720 0, vz = 0\<rparr>,
      velocity = \<lparr>vx = 0, vy = 0, vz = 0\<rparr>, rotation = 0, pitch = 0, isPlayer = False,
      hp = 100, maxHp = 100\<rparr>"
  by (simp add: teleportedBot_def applyHit_def mkEntity_def BULLET_DAMAGE_def TERRAIN_SIZE_def Let_def)

lemma los_tick_open:
  "clientVisible duelTable (createSpatialGrid []) (losClient True) \<lparr>vx = 0, vy = 0, vz = 0\<rparr> []
     = ([0], [(0, 1)])"
proof -
  have s: "sqrt 400 = 20" by (rule sqrt_sq_eq) simp_all
  have c: "canSeeEntity \<lparr>vx = 0, vy = 0, vz = 0\<rparr> \<lparr>vx = 20, vy = 0, vz = 0\<rparr> (createSpatialGrid [])"
    by (simp add: canSeeEntity_def Let_def s hasLineOfSight_def createSpatialGrid_def list_all_iff)
  show ?thesis
    using c
    by (simp add: clientVisible_def getVisibleEntities_def duelTable_def losClient_def mkEntity_def
        VIEW_DISTANCE_def LOS_GRACE_TICKS_def Let_def)
qed

section \<open>The broadcast of a tick on JavaScript numbers\<close>

subsection \<open>The ray and the box\<close>

lemma jsRayIntersectsBox_finite:
  "jsRayIntersectsBox (jsVector rayStart) (jsVector rayEnd) (jsVector boxCenter) (jsVector boxSize)
     = rayIntersectsBox rayStart rayEnd boxCenter boxSize"
proof -
  define dX where "dX = vx rayEnd - vx rayStart"
  define dY where "dY = vy rayEnd - vy rayStart"
  define dZ where "dZ = vz rayEnd - vz rayStart"
  define len where "len = sqrt (dX * dX + dY * dY + dZ * dZ)"
  have nn: "0 \<le> dX * dX + dY * dY + dZ * dZ" by simp
  have l: "js_sqrt (Fin (dX * dX + dY * dY + dZ * dZ)) = Fin len"
    unfolding len_def using nn by (rule js_sqrt_fin)
  show ?thesis
  proof (cases "len < 0.001")
    case True
    then show ?thesis
      unfolding jsRayIntersectsBox_def rayIntersectsBox_def jsVector_def Let_def prod.case js_fin
        dX_def [symmetric] dY_def [symmetric] dZ_def [symmetric] l len_def [symmetric]
      by simp
  next
    case False
    then have l0: "len \<noteq> 0" by auto
    have d: "js_div (Fin dX) (Fin len) = Fin (dX / len)" "js_div (Fin dY) (Fin len) = Fin (dY / len)"
      "js_div (Fin dZ) (Fin len) = Fin (dZ / len)" using l0 by (simp_all add: js_div_fin)
    have h: "js_div (Fin r) (Fin 2) = Fin (r / 2)" for r by (simp add: js_div_fin)
    have q: "\<bar>b\<bar> > 0.0001 \<Longrightarrow> js_div (Fin a) (Fin b) = Fin (a / b)" for a b :: real
      by (rule js_div_fin) auto
    show ?thesis
      unfolding jsRayIntersectsBox_def rayIntersectsBox_def jsVector_def Let_def prod.case js_fin
        dX_def [symmetric] dY_def [symmetric] dZ_def [symmetric] l len_def [symmetric] d h
      using False
      by (cases "\<bar>dX / len\<bar> > 0.0001"; cases "\<bar>dY / len\<bar> > 0.0001"; cases "\<bar>dZ / len\<bar> > 0.0001";
          simp add: q js_fin)
  qed
qed

subsection \<open>The cells along a ray\<close>

lemma jsGetCellKey_finite: "jsGetCellKey (Fin x) (Fin z) = jsKey (getCellKey x z)"
  by (simp add: jsGetCellKey_def getCellKey_def jsKey_def Let_def js_fin)

lemma setAdd_jsKey: "setAdd (jsKey k) (map jsKey ks) = map jsKey (setAdd k ks)"
  by (auto simp add: setAdd_def jsKey_inj)

lemma foldl_cells_finite:
  assumes "n \<noteq> 0"
  shows "foldl (\<lambda>cs i.
             let t = js_div (Fin (real_of_int i)) (Fin n);
                 x = js_add (Fin sx) (js_mul (Fin dx) t);
                 z = js_add (Fin sz) (js_mul (Fin dz) t)
             in setAdd (jsGetCellKey x z) cs) (map jsKey acc) is
         = map jsKey (foldl (\<lambda>cs i.
             let t = real_of_int i / n;
                 x = sx + dx * t;
                 z = sz + dz * t
             in setAdd (getCellKey x z) cs) acc is)"
proof (induction "is" arbitrary: acc)
  case Nil
  show ?case by simp
next
  case (Cons i "is")
  have step: "(let t = js_div (Fin (real_of_int i)) (Fin n);
                 x = js_add (Fin sx) (js_mul (Fin dx) t);
                 z = js_add (Fin sz) (js_mul (Fin dz) t)
             in setAdd (jsGetCellKey x z) (map jsKey acc))
        = map jsKey (let t = real_of_int i / n; x = sx + dx * t; z = sz + dz * t
                     in setAdd (getCellKey x z) acc)"
    using assms by (simp add: Let_def js_div_fin js_fin jsGetCellKey_finite setAdd_jsKey)
  show ?case unfolding foldl_Cons step by (rule Cons.IH)
qed

lemma jsGetCellsAlongRay_finite:
  "jsGetCellsAlongRay (jsVector start) (jsVector end') = Some (map jsKey (getCellsAlongRay start end'))"
proof -
  define dx where "dx = vx end' - vx start"
  define dz where "dz = vz end' - vz start"
  define distance where "distance = sqrt (dx * dx + dz * dz)"
  have l: "js_sqrt (Fin (dx * dx + dz * dz)) = Fin distance"
    unfolding distance_def by (rule js_sqrt_fin) simp
  show ?thesis
  proof (cases "distance < 0.001")
    case True
    then show ?thesis
      unfolding jsGetCellsAlongRay_def getCellsAlongRay_def jsVector_def Let_def prod.case js_fin
        dx_def [symmetric] dz_def [symmetric] l distance_def [symmetric]
      by (simp add: jsGetCellKey_finite)
  next
    case False
    define steps where "steps = \<lceil>distance / CELL_SIZE\<rceil> + 1"
    have "0 \<le> distance / CELL_SIZE" using False by (simp add: geo)
    then have "0 \<le> \<lceil>distance / CELL_SIZE\<rceil>" by (simp add: ceiling_le_iff [symmetric] le_ceiling_iff)
    then have s1: "1 \<le> steps" by (simp add: steps_def)
    then have s0: "real_of_int steps \<noteq> 0" by simp
    have c: "CELL_SIZE \<noteq> 0" by (simp add: geo)
    have st: "js_add (js_ceil (js_div (Fin distance) (Fin CELL_SIZE))) (Fin 1) = Fin (real_of_int steps)"
      using c by (simp add: js_div_fin js_fin steps_def)
    have fl: "\<lfloor>real_of_int steps\<rfloor> = steps" by simp
    have "jsGetCellsAlongRay (jsVector start) (jsVector end')
        = Some (foldl (\<lambda>cs i.
             let t = js_div (Fin (real_of_int i)) (Fin (real_of_int steps));
                 x = js_add (Fin (vx start)) (js_mul (Fin dx) t);
                 z = js_add (Fin (vz start)) (js_mul (Fin dz) t)
             in setAdd (jsGetCellKey x z) cs) (map jsKey []) [0..steps])"
      unfolding jsGetCellsAlongRay_def jsVector_def Let_def prod.case js_fin
        dx_def [symmetric] dz_def [symmetric] l st
      using False by (simp add: fl)
    also have "\<dots> = Some (map jsKey (foldl (\<lambda>cs i.
             let t = real_of_int i / real_of_int steps;
                 x = vx start + dx * t;
                 z = vz start + dz * t
             in setAdd (getCellKey x z) cs) [] [0..steps]))"
      unfolding foldl_cells_finite [OF s0] ..
    also have "\<dots> = Some (map jsKey (getCellsAlongRay start end'))"
      unfolding getCellsAlongRay_def Let_def dx_def [symmetric] dz_def [symmetric]
        distance_def [symmetric] steps_def [symmetric]
      using False by simp
    finally show ?thesis .
  qed
qed

text \<open>A ray with NaN in the \<open>x\<close> or the \<open>z\<close> of an end point has no cells: the number of
  steps is NaN, and the loop \<open>i <= steps\<close> ends at once.\<close>

lemma jsGetCellsAlongRay_nan:
  assumes "sx = NaN \<or> sz = NaN \<or> ex = NaN \<or> ez = NaN"
  shows "jsGetCellsAlongRay (sx, sy, sz) (ex, ey, ez) = Some []"
proof -
  have "js_add (js_mul (js_sub ex sx) (js_sub ex sx)) (js_mul (js_sub ez sz) (js_sub ez sz)) = NaN"
    using assms by (auto simp add: js_nan)
  then show ?thesis
    unfolding jsGetCellsAlongRay_def Let_def prod.case
    by (simp add: js_nan)
qed

text \<open>The loop ends whenever the \<open>x\<close> and \<open>z\<close> of the end points are not infinite.\<close>

lemma jsGetCellsAlongRay_returns:
  assumes "sx \<noteq> PosInf" "sx \<noteq> NegInf" "sz \<noteq> PosInf" "sz \<noteq> NegInf"
    and "ex \<noteq> PosInf" "ex \<noteq> NegInf" "ez \<noteq> PosInf" "ez \<noteq> NegInf"
  shows "jsGetCellsAlongRay (sx, sy, sz) (ex, ey, ez) \<noteq> None"
proof (cases "sx = NaN \<or> sz = NaN \<or> ex = NaN \<or> ez = NaN")
  case True
  then show ?thesis by (simp add: jsGetCellsAlongRay_nan)
next
  case False
  with assms obtain a b c d where f: "sx = Fin a" "sz = Fin b" "ex = Fin c" "ez = Fin d"
    by (cases sx; cases sz; cases ex; cases ez) auto
  have "jsGetCellsAlongRay (sx, sy, sz) (ex, ey, ez)
      = jsGetCellsAlongRay (jsVector \<lparr>vx = a, vy = 0, vz = b\<rparr>) (jsVector \<lparr>vx = c, vy = 0, vz = d\<rparr>)"
    by (simp add: jsGetCellsAlongRay_def jsVector_def f)
  then show ?thesis by (simp add: jsGetCellsAlongRay_finite)
qed

subsection \<open>Line of sight\<close>

lemma jsHasLineOfSight_finite:
  assumes "sameObstacles cs g"
  shows "jsHasLineOfSight (jsVector start) (jsVector end') cs = Some (hasLineOfSight start end' g)"
proof -
  let ?Q = "\<lambda>ob. \<not> rayIntersectsBox start end' (opos ob) (osize ob)"
  have a: "(case m of None \<Rightarrow> True | Some cell \<Rightarrow> list_all ?Q (cellObstacles cell))
      = list_all ?Q (case m of None \<Rightarrow> [] | Some c \<Rightarrow> cellObstacles c)" for m :: "gridcell option"
    by (cases m) simp_all
  have b: "(case map_of cs (jsKey k) of None \<Rightarrow> True | Some cell \<Rightarrow> list_all ?Q (cellObstacles cell))
      = (case map_of (cells g) k of None \<Rightarrow> True | Some cell \<Rightarrow> list_all ?Q (cellObstacles cell))" for k
    unfolding a using assms [unfolded sameObstacles_def, rule_format, of k] by simp
  show ?thesis
    unfolding jsHasLineOfSight_def hasLineOfSight_def jsGetCellsAlongRay_finite option.case
      jsRayIntersectsBox_finite
    by (simp add: list_all_iff b)
qed

lemma jsHasLineOfSight_nan:
  assumes "sx = NaN \<or> sz = NaN \<or> ex = NaN \<or> ez = NaN"
  shows "jsHasLineOfSight (sx, sy, sz) (ex, ey, ez) cs = Some True"
  by (simp add: jsHasLineOfSight_def jsGetCellsAlongRay_nan [OF assms])

lemma jsHasLineOfSight_returns:
  assumes "sx \<noteq> PosInf" "sx \<noteq> NegInf" "sz \<noteq> PosInf" "sz \<noteq> NegInf"
    and "ex \<noteq> PosInf" "ex \<noteq> NegInf" "ez \<noteq> PosInf" "ez \<noteq> NegInf"
  shows "jsHasLineOfSight (sx, sy, sz) (ex, ey, ez) cs \<noteq> None"
  using jsGetCellsAlongRay_returns [OF assms, of sy ey]
  by (auto simp add: jsHasLineOfSight_def)

lemma jsCanSeeEntity_finite:
  assumes "sameObstacles cs g"
  shows "jsCanSeeEntity (jsVector viewerPos) (jsVector targetPos) cs
           = Some (canSeeEntity viewerPos targetPos g)"
proof -
  define dx where "dx = vx targetPos - vx viewerPos"
  define dz where "dz = vz targetPos - vz viewerPos"
  define distXZ where "distXZ = sqrt (dx * dx + dz * dz)"
  have l: "js_sqrt (Fin (dx * dx + dz * dz)) = Fin distXZ"
    unfolding distXZ_def by (rule js_sqrt_fin) simp
  show ?thesis
  proof (cases "distXZ < 0.001")
    case True
    then show ?thesis
      unfolding jsCanSeeEntity_def canSeeEntity_def jsVector_def Let_def prod.case js_fin
        dx_def [symmetric] dz_def [symmetric] l distXZ_def [symmetric]
      by simp
  next
    case False
    then have d0: "distXZ \<noteq> 0" by auto
    define perpX where "perpX = (- dz / distXZ) * ENTITY_RADIUS"
    define perpZ where "perpZ = (dx / distXZ) * ENTITY_RADIUS"
    have px: "js_mul (js_div (Fin (- dz)) (Fin distXZ)) (Fin ENTITY_RADIUS) = Fin perpX"
      and pz: "js_mul (js_div (Fin dx) (Fin distXZ)) (Fin ENTITY_RADIUS) = Fin perpZ"
      using d0 by (simp_all add: js_div_fin js_fin perpX_def perpZ_def)
    let ?eye = "\<lparr>vx = vx viewerPos, vy = vy viewerPos + EYE_HEIGHT, vz = vz viewerPos\<rparr>"
    let ?left = "\<lparr>vx = vx targetPos + perpX, vy = vy targetPos + ENTITY_HEIGHT, vz = vz targetPos + perpZ\<rparr>"
    let ?right = "\<lparr>vx = vx targetPos - perpX, vy = vy targetPos + ENTITY_HEIGHT, vz = vz targetPos - perpZ\<rparr>"
    let ?leftBottom = "\<lparr>vx = vx targetPos + perpX, vy = vy targetPos, vz = vz targetPos + perpZ\<rparr>"
    let ?rightBottom = "\<lparr>vx = vx targetPos - perpX, vy = vy targetPos, vz = vz targetPos - perpZ\<rparr>"
    have vp: "jsVector viewerPos = (Fin (vx viewerPos), Fin (vy viewerPos), Fin (vz viewerPos))"
      and tp: "jsVector targetPos = (Fin (vx targetPos), Fin (vy targetPos), Fin (vz targetPos))"
      by (simp_all add: jsVector_def)
    have v: "(Fin (vx viewerPos), Fin (vy viewerPos + EYE_HEIGHT), Fin (vz viewerPos)) = jsVector ?eye"
      "(Fin (vx targetPos + perpX), Fin (vy targetPos + ENTITY_HEIGHT), Fin (vz targetPos + perpZ)) = jsVector ?left"
      "(Fin (vx targetPos - perpX), Fin (vy targetPos + ENTITY_HEIGHT), Fin (vz targetPos - perpZ)) = jsVector ?right"
      "(Fin (vx targetPos + perpX), Fin (vy targetPos), Fin (vz targetPos + perpZ)) = jsVector ?leftBottom"
      "(Fin (vx targetPos - perpX), Fin (vy targetPos), Fin (vz targetPos - perpZ)) = jsVector ?rightBottom"
      by (simp_all add: jsVector_def)
    have hl: "jsHasLineOfSight (jsVector s) (jsVector e) cs = Some (hasLineOfSight s e g)" for s e
      using assms by (rule jsHasLineOfSight_finite)
    have js: "jsCanSeeEntity (jsVector viewerPos) (jsVector targetPos) cs
        = Some (if hasLineOfSight ?eye ?left g then True
                else if hasLineOfSight ?eye ?right g then True
                else if hasLineOfSight ?eye ?leftBottom g then True
                else if hasLineOfSight ?eye ?rightBottom g then True else False)"
      unfolding jsCanSeeEntity_def vp tp Let_def prod.case js_fin
        dx_def [symmetric] dz_def [symmetric] l px pz v hl
      using False by simp
    have re: "canSeeEntity viewerPos targetPos g
        = (if hasLineOfSight ?eye ?left g then True
           else if hasLineOfSight ?eye ?right g then True
           else if hasLineOfSight ?eye ?leftBottom g then True
           else if hasLineOfSight ?eye ?rightBottom g then True else False)"
      unfolding canSeeEntity_def Let_def dx_def [symmetric] dz_def [symmetric]
        distXZ_def [symmetric] perpX_def [symmetric] perpZ_def [symmetric]
      using False by simp
    show ?thesis unfolding js re ..
  qed
qed

text \<open>With NaN in the \<open>x\<close> or the \<open>z\<close> of the viewer or of the target, the horizontal
  distance is NaN, the test for co-location is false, the perpendicular is NaN, and so are
  the \<open>x\<close> and \<open>z\<close> of the first edge point: its ray has no cells and is clear.\<close>

lemma jsCanSeeEntity_nan:
  assumes "viewerX = NaN \<or> viewerZ = NaN \<or> targetX = NaN \<or> targetZ = NaN"
  shows "jsCanSeeEntity (viewerX, viewerY, viewerZ) (targetX, targetY, targetZ) cs = Some True"
proof -
  let ?dx = "js_sub targetX viewerX" and ?dz = "js_sub targetZ viewerZ"
  have d: "js_sqrt (js_add (js_mul ?dx ?dx) (js_mul ?dz ?dz)) = NaN"
    using assms by (auto simp add: js_nan)
  have "jsHasLineOfSight (viewerX, js_add viewerY (Fin EYE_HEIGHT), viewerZ)
          (js_add targetX (js_mul (js_div (js_neg ?dz) NaN) (Fin ENTITY_RADIUS)),
           js_add targetY (Fin ENTITY_HEIGHT),
           js_add targetZ (js_mul (js_div ?dx NaN) (Fin ENTITY_RADIUS))) cs = Some True"
    by (rule jsHasLineOfSight_nan) (simp add: js_nan)
  then show ?thesis
    unfolding jsCanSeeEntity_def Let_def prod.case d
    by (simp add: js_nan)
qed

text \<open>The line-of-sight test returns whenever the \<open>x\<close> and \<open>z\<close> of the two positions are
  not infinite.\<close>

lemma jsCanSeeEntity_returns:
  assumes "inTerrain viewerX" "inTerrain viewerZ" "inTerrain targetX" "inTerrain targetZ"
  shows "jsCanSeeEntity (viewerX, viewerY, viewerZ) (targetX, targetY, targetZ) cs \<noteq> None"
proof (cases "viewerX = NaN \<or> viewerZ = NaN \<or> targetX = NaN \<or> targetZ = NaN")
  case True
  then show ?thesis by (simp add: jsCanSeeEntity_nan)
next
  case False
  with assms obtain a b c d where f: "viewerX = Fin a" "viewerZ = Fin b" "targetX = Fin c" "targetZ = Fin d"
    by (cases viewerX; cases viewerZ; cases targetX; cases targetZ) (auto simp add: inTerrain_def)
  define dx where "dx = c - a"
  define dz where "dz = d - b"
  define distXZ where "distXZ = sqrt (dx * dx + dz * dz)"
  have l: "js_sqrt (Fin (dx * dx + dz * dz)) = Fin distXZ"
    unfolding distXZ_def by (rule js_sqrt_fin) simp
  show ?thesis
  proof (cases "distXZ < 0.001")
    case True
    then show ?thesis
      unfolding jsCanSeeEntity_def f Let_def prod.case js_fin dx_def [symmetric] dz_def [symmetric] l
      by simp
  next
    case False
    then have d0: "distXZ \<noteq> 0" by auto
    define perpX where "perpX = (- dz / distXZ) * ENTITY_RADIUS"
    define perpZ where "perpZ = (dx / distXZ) * ENTITY_RADIUS"
    have px: "js_mul (js_div (Fin (- dz)) (Fin distXZ)) (Fin ENTITY_RADIUS) = Fin perpX"
      and pz: "js_mul (js_div (Fin dx) (Fin distXZ)) (Fin ENTITY_RADIUS) = Fin perpZ"
      using d0 by (simp_all add: js_div_fin js_fin perpX_def perpZ_def)
    have r: "\<exists>h. jsHasLineOfSight (Fin a, y, Fin b) (Fin u, y', Fin v) cs = Some h" for y y' u v
      using jsHasLineOfSight_returns [of "Fin a" "Fin b" "Fin u" "Fin v" y y' cs] by auto
    obtain h1 h2 h3 h4 where h:
      "jsHasLineOfSight (Fin a, js_add viewerY (Fin EYE_HEIGHT), Fin b)
         (Fin (c + perpX), js_add targetY (Fin ENTITY_HEIGHT), Fin (d + perpZ)) cs = Some h1"
      "jsHasLineOfSight (Fin a, js_add viewerY (Fin EYE_HEIGHT), Fin b)
         (Fin (c - perpX), js_add targetY (Fin ENTITY_HEIGHT), Fin (d - perpZ)) cs = Some h2"
      "jsHasLineOfSight (Fin a, js_add viewerY (Fin EYE_HEIGHT), Fin b)
         (Fin (c + perpX), targetY, Fin (d + perpZ)) cs = Some h3"
      "jsHasLineOfSight (Fin a, js_add viewerY (Fin EYE_HEIGHT), Fin b)
         (Fin (c - perpX), targetY, Fin (d - perpZ)) cs = Some h4"
      using r by metis
    show ?thesis
      unfolding jsCanSeeEntity_def f Let_def prod.case js_fin dx_def [symmetric] dz_def [symmetric] l px pz h
      using False by (cases h1; cases h2; cases h3; cases h4; simp)
  qed
qed

subsection \<open>The visible set\<close>

lemma jsBeyondViewDistance_finite:
  "jsBeyondViewDistance (jsVector v) (jsVector e) d
     \<longleftrightarrow> (vx e - vx v) * (vx e - vx v) + (vy e - vy v) * (vy e - vy v) + (vz e - vz v) * (vz e - vz v)
          > d * d"
  by (simp add: jsBeyondViewDistance_def jsVector_def Let_def js_fin)

lemma jsBeyondViewDistance_nan:
  assumes "vX = NaN \<or> vY = NaN \<or> vZ = NaN \<or> eX = NaN \<or> eY = NaN \<or> eZ = NaN"
  shows "\<not> jsBeyondViewDistance (vX, vY, vZ) (eX, eY, eZ) d"
proof -
  have "js_add (js_add (js_mul (js_sub eX vX) (js_sub eX vX)) (js_mul (js_sub eY vY) (js_sub eY vY)))
          (js_mul (js_sub eZ vZ) (js_sub eZ vZ)) = NaN"
    using assms by (auto simp add: js_nan)
  then show ?thesis by (simp add: jsBeyondViewDistance_def Let_def js_nan)
qed

lemma jsGetVisibleEntities_iff:
  assumes "jsGetVisibleEntities viewerPos entityPositions cs viewDist los viewerId = Some visible"
  shows "i \<in> set visible \<longleftrightarrow>
         (\<exists>pos. (i, pos) \<in> set entityPositions \<and> i \<noteq> viewerId
            \<and> \<not> jsBeyondViewDistance viewerPos pos viewDist
            \<and> (\<not> los \<or> jsCanSeeEntity viewerPos pos cs = Some True))"
  using assms
proof (induction entityPositions arbitrary: visible)
  case Nil
  then show ?case by simp
next
  case (Cons e rest)
  obtain j pos where e: "e = (j, pos)" by (cases e)
  define pushed where "pushed =
            (if j = viewerId then Some False
             else if jsBeyondViewDistance viewerPos pos viewDist then Some False
             else if \<not> los then Some True
             else jsCanSeeEntity viewerPos pos cs)"
  from Cons.prems obtain b vis' where b: "pushed = Some b"
    and r: "jsGetVisibleEntities viewerPos rest cs viewDist los viewerId = Some vis'"
    and v: "visible = (if b then j # vis' else vis')"
    unfolding e jsGetVisibleEntities.simps Let_def pushed_def [symmetric]
    by (auto split: option.splits)
  have pb: "b \<longleftrightarrow> j \<noteq> viewerId \<and> \<not> jsBeyondViewDistance viewerPos pos viewDist
                \<and> (\<not> los \<or> jsCanSeeEntity viewerPos pos cs = Some True)"
    using b unfolding pushed_def by (auto split: if_splits)
  from Cons.IH [OF r] have ih: "i \<in> set vis' \<longleftrightarrow>
         (\<exists>pos. (i, pos) \<in> set rest \<and> i \<noteq> viewerId
            \<and> \<not> jsBeyondViewDistance viewerPos pos viewDist
            \<and> (\<not> los \<or> jsCanSeeEntity viewerPos pos cs = Some True))" .
  show ?case
  proof (cases "i = j")
    case True
    show ?thesis
    proof (cases b)
      case True
      with pb \<open>i = j\<close> have "(i, pos) \<in> set (e # rest) \<and> i \<noteq> viewerId
          \<and> \<not> jsBeyondViewDistance viewerPos pos viewDist
          \<and> (\<not> los \<or> jsCanSeeEntity viewerPos pos cs = Some True)"
        by (simp add: e)
      then have "\<exists>pos. (i, pos) \<in> set (e # rest) \<and> i \<noteq> viewerId
          \<and> \<not> jsBeyondViewDistance viewerPos pos viewDist
          \<and> (\<not> los \<or> jsCanSeeEntity viewerPos pos cs = Some True)" ..
      moreover have "i \<in> set visible" using True \<open>i = j\<close> v by simp
      ultimately show ?thesis by simp
    next
      case False
      have "(\<exists>q. (i, q) \<in> set (e # rest) \<and> i \<noteq> viewerId
            \<and> \<not> jsBeyondViewDistance viewerPos q viewDist
            \<and> (\<not> los \<or> jsCanSeeEntity viewerPos q cs = Some True))
          \<longleftrightarrow> (\<exists>q. (i, q) \<in> set rest \<and> i \<noteq> viewerId
            \<and> \<not> jsBeyondViewDistance viewerPos q viewDist
            \<and> (\<not> los \<or> jsCanSeeEntity viewerPos q cs = Some True))"
        using False pb \<open>i = j\<close> unfolding e by (auto simp del: split_paired_Ex)
      moreover have "visible = vis'" using False v by simp
      ultimately show ?thesis using ih by simp
    qed
  next
    case False
    then have "i \<in> set visible \<longleftrightarrow> i \<in> set vis'" using v by simp
    moreover have "(\<exists>q. (i, q) \<in> set (e # rest) \<and> i \<noteq> viewerId
            \<and> \<not> jsBeyondViewDistance viewerPos q viewDist
            \<and> (\<not> los \<or> jsCanSeeEntity viewerPos q cs = Some True))
          \<longleftrightarrow> (\<exists>q. (i, q) \<in> set rest \<and> i \<noteq> viewerId
            \<and> \<not> jsBeyondViewDistance viewerPos q viewDist
            \<and> (\<not> los \<or> jsCanSeeEntity viewerPos q cs = Some True))"
      using False unfolding e by (auto simp del: split_paired_Ex)
    ultimately show ?thesis using ih by simp
  qed
qed

lemma jsGetVisibleEntities_finite:
  assumes "sameObstacles cs g"
  shows "jsGetVisibleEntities (jsVector viewerPos) (map (\<lambda>(i, p). (i, jsVector p)) entityPositions) cs
           viewDist los viewerId
         = Some (getVisibleEntities viewerPos entityPositions g viewDist los viewerId)"
proof (induction entityPositions)
  case Nil
  show ?case by (simp add: getVisibleEntities_def)
next
  case (Cons e rest)
  obtain j pos where e: "e = (j, pos)" by (cases e)
  have tail: "getVisibleEntities viewerPos (e # rest) g viewDist los viewerId
      = (if j \<noteq> viewerId \<and> \<not> jsBeyondViewDistance (jsVector viewerPos) (jsVector pos) viewDist
            \<and> (\<not> los \<or> canSeeEntity viewerPos pos g)
         then j # getVisibleEntities viewerPos rest g viewDist los viewerId
         else getVisibleEntities viewerPos rest g viewDist los viewerId)"
    unfolding e jsBeyondViewDistance_finite by (simp add: getVisibleEntities_def Let_def)
  show ?case
    unfolding tail unfolding e
    by (simp add: Cons.IH jsCanSeeEntity_finite [OF assms])
qed

subsection \<open>The broadcast\<close>

lemma graceStep_cong:
  assumes "\<And>i. (map_of a i \<noteq> None) = (map_of b i \<noteq> None)"
  shows "graceStep vis a = graceStep vis b"
  using assms by (auto simp add: graceStep_def fun_eq_iff Let_def split_beta)

lemma sameObstacles_lift: "sameObstacles (map (\<lambda>(k, c). (jsKey k, c)) (cells g)) g"
proof -
  have "map_of (map (\<lambda>(k, c). (jsKey k, c)) cs) (jsKey k) = map_of cs k" for cs :: "(cellkey \<times> gridcell) list" and k
    by (induction cs) (auto simp add: jsKey_inj)
  then show ?thesis by (simp add: sameObstacles_def)
qed

lemma jsClientVisible_finite:
  assumes same: "sameObstacles cs g"
    and pos: "map (\<lambda>(i, entry). (i, entryPosition entry)) table
                = map (\<lambda>(i, ent). (i, jsVector (position ent))) ents"
  shows "jsClientVisible table cs client (jsVector clientPos) graceMap0
           = Some (clientVisible ents g client clientPos graceMap0)"
proof -
  have "map fst (map (\<lambda>(i, entry). (i, entryPosition entry)) table)
      = map fst (map (\<lambda>(i, ent). (i, jsVector (position ent))) ents)"
    using pos by simp
  then have keys: "map fst table = map fst ents" by (simp add: comp_def split_beta)
  have dom: "(map_of table i \<noteq> None) = (map_of ents i \<noteq> None)" for i
  proof -
    have "(map_of table i \<noteq> None) = (i \<in> set (map fst table))" by (simp add: map_of_eq_None_iff)
    also have "\<dots> = (i \<in> set (map fst ents))" unfolding keys ..
    also have "\<dots> = (map_of ents i \<noteq> None)" by (simp add: map_of_eq_None_iff)
    finally show ?thesis .
  qed
  have gs: "graceStep vis table = graceStep vis ents" for vis
    using dom by (rule graceStep_cong)
  have p: "map (\<lambda>(i, ent). (i, jsVector (position ent))) ents
      = map (\<lambda>(i, p). (i, jsVector p)) (map (\<lambda>(i, ent). (i, position ent)) ents)"
    by (simp add: comp_def split_beta)
  show ?thesis
    unfolding jsClientVisible_def clientVisible_def Let_def pos p
      jsGetVisibleEntities_finite [OF same] option.case gs
    by (simp add: split_beta)
qed

lemma jsClientVisible_parts:
  assumes "jsClientVisible table cs client clientPos graceMap0 = Some (final, graceMap')"
  obtains visible where
    "jsGetVisibleEntities clientPos (map (\<lambda>(i, entry). (i, entryPosition entry)) table) cs
       (viewDistance client) (losMode client) (cid client) = Some visible"
    "set final = set visible \<union> {i \<in> fst ` set graceMap0. i \<notin> set visible \<and> map_of table i \<noteq> None}"
    "(\<forall>(k, n) \<in> set graceMap0. n \<le> 1) \<longrightarrow>
       map_of graceMap' = (\<lambda>k. if k \<in> set visible then Some LOS_GRACE_TICKS
                               else if map_of table k \<noteq> None then None else map_of graceMap0 k)"
proof -
  from assms obtain visible where
    v: "jsGetVisibleEntities clientPos (map (\<lambda>(i, entry). (i, entryPosition entry)) table) cs
       (viewDistance client) (losMode client) (cid client) = Some visible"
    and f: "final = fst (foldl (graceStep visible table) (visible, graceMap0) graceMap0)"
    and g: "graceMap' = foldl (\<lambda>m entityId. AList.update entityId LOS_GRACE_TICKS m)
              (snd (foldl (graceStep visible table) (visible, graceMap0) graceMap0)) visible"
    unfolding jsClientVisible_def Let_def by (auto simp add: split_beta split: option.splits)
  have ids: "set final = set visible \<union> {i \<in> fst ` set graceMap0. i \<notin> set visible \<and> map_of table i \<noteq> None}"
    unfolding f by (rule graceStep_ids)
  have gm: "(\<forall>(k, n) \<in> set graceMap0. n \<le> 1) \<longrightarrow>
       map_of graceMap' = (\<lambda>k. if k \<in> set visible then Some LOS_GRACE_TICKS
                               else if map_of table k \<noteq> None then None else map_of graceMap0 k)"
  proof
    assume b: "\<forall>(k, n) \<in> set graceMap0. n \<le> 1"
    show "map_of graceMap' = (\<lambda>k. if k \<in> set visible then Some LOS_GRACE_TICKS
                               else if map_of table k \<noteq> None then None else map_of graceMap0 k)"
      unfolding g foldl_update_map graceStep_map [OF b]
      by (auto simp add: fun_eq_iff map_of_eq_None_iff)
  qed
  from v ids gm show ?thesis by (rule that)
qed

lemma table_positions:
  "(i, pos) \<in> set (map (\<lambda>(i, entry). (i, entryPosition entry)) table)
     \<longleftrightarrow> (\<exists>entry. (i, entry) \<in> set table \<and> entryPosition entry = pos)"
  by (induction table) auto

text \<open>The visible set is computed, and the tick goes on, whenever the \<open>x\<close> and \<open>z\<close> of the
  positions are numbers of the terrain or NaN, as they are in every state the server
  reaches.\<close>

lemma jsGetVisibleEntities_returns:
  assumes "admissible viewerPos" "list_all (\<lambda>(i, pos). admissible pos) entityPositions"
  shows "jsGetVisibleEntities viewerPos entityPositions cs viewDist los viewerId \<noteq> None"
  using assms(2)
proof (induction entityPositions)
  case Nil
  show ?case by simp
next
  case (Cons e rest)
  obtain j pos where e: "e = (j, pos)" by (cases e)
  obtain vX vY vZ where v: "viewerPos = (vX, vY, vZ)" by (cases viewerPos)
  obtain eX eY eZ where p: "pos = (eX, eY, eZ)" by (cases pos)
  from Cons.prems e have a: "admissible pos"
    and r: "list_all (\<lambda>(i, pos). admissible pos) rest" by simp_all
  have "jsCanSeeEntity viewerPos pos cs \<noteq> None"
    unfolding v p using assms(1) a unfolding v p admissible_def prod.case
    by (intro jsCanSeeEntity_returns) simp_all
  then obtain c where c: "jsCanSeeEntity viewerPos pos cs = Some c" by auto
  from Cons.IH [OF r] obtain vis where
    vis: "jsGetVisibleEntities viewerPos rest cs viewDist los viewerId = Some vis" by auto
  show ?case unfolding e jsGetVisibleEntities.simps Let_def vis c by simp
qed

lemma jsClientVisible_returns:
  assumes "admissible clientPos" "list_all (\<lambda>(i, entry). admissible (entryPosition entry)) table"
  shows "jsClientVisible table cs client clientPos graceMap0 \<noteq> None"
proof -
  have "list_all (\<lambda>(i, pos). admissible pos) (map (\<lambda>(i, entry). (i, entryPosition entry)) table)"
    using assms(2) by (simp add: list_all_iff split_beta)
  from jsGetVisibleEntities_returns [OF assms(1) this]
  show ?thesis by (auto simp add: jsClientVisible_def Let_def split_beta split: option.splits)
qed

subsection \<open>The duel evaluated\<close>

lemma duel_classical_tick:
  "jsClientVisible duelEntries wallCells (losClient False) (Fin 0, Fin 0, Fin 0) [] = Some ([0], [(0, 1)])"
proof -
  have p: "map (\<lambda>(i, entry). (i, entryPosition entry)) duelEntries
      = map (\<lambda>(i, ent). (i, jsVector (position ent))) duelTable"
    by (simp add: duelEntries_def duelTable_def jsVector_def mkEntity_def)
  have s: "sameObstacles wallCells (createSpatialGrid [wallS2])"
    unfolding wallCells_def by (rule sameObstacles_lift)
  have v: "(Fin 0, Fin 0, Fin 0) = jsVector \<lparr>vx = 0, vy = 0, vz = 0\<rparr>" by (simp add: jsVector_def)
  show ?thesis unfolding v jsClientVisible_finite [OF s p] classical_tick_wall ..
qed

lemma duel_los_tick:
  "jsClientVisible duelEntries wallCells (losClient True) (Fin 0, Fin 0, Fin 0) [(0, 1)] = Some ([0], [])"
proof -
  have p: "map (\<lambda>(i, entry). (i, entryPosition entry)) duelEntries
      = map (\<lambda>(i, ent). (i, jsVector (position ent))) duelTable"
    by (simp add: duelEntries_def duelTable_def jsVector_def mkEntity_def)
  have s: "sameObstacles wallCells (createSpatialGrid [wallS2])"
    unfolding wallCells_def by (rule sameObstacles_lift)
  have v: "(Fin 0, Fin 0, Fin 0) = jsVector \<lparr>vx = 0, vy = 0, vz = 0\<rparr>" by (simp add: jsVector_def)
  show ?thesis unfolding v jsClientVisible_finite [OF s p] los_tick_wall ..
qed

lemma nan_los_tick:
  "jsClientVisible nanEntries wallCells (losClient True) (NaN, NaN, Fin 0) [(0, 1)] = Some ([0], [(0, 1)])"
proof -
  have c: "jsCanSeeEntity (NaN, NaN, Fin 0) (Fin 20, Fin 0, Fin 0) wallCells = Some True"
    by (rule jsCanSeeEntity_nan) simp
  have b: "\<not> jsBeyondViewDistance (NaN, NaN, Fin 0) (Fin 20, Fin 0, Fin 0) VIEW_DISTANCE"
    by (rule jsBeyondViewDistance_nan) simp
  have v: "jsGetVisibleEntities (NaN, NaN, Fin 0)
              (map (\<lambda>(i, entry). (i, entryPosition entry)) nanEntries) wallCells
              (viewDistance (losClient True)) (losMode (losClient True)) (cid (losClient True)) = Some [0]"
    using b c by (simp add: nanEntries_def losClient_def jsVector_def mkEntity_def)
  show ?thesis
    unfolding jsClientVisible_def Let_def v option.case
    by (simp add: graceStep_def LOS_GRACE_TICKS_def)
qed


section \<open>C1: who is in the broadcast\<close>

text \<open>
  Claim C1 says that an entity broadcast to a client on a tick is seen by the client
  (\<open>canSeeEntity\<close>) on that tick or was seen on the previous tick, or else the client is
  in classical mode and the entity is within the view distance. It fails on the code when
  a client changes from classical to line-of-sight mode: the bot behind the wall was sent
  in classical mode, so it is in the grace map, and the next tick, in line-of-sight mode,
  sends it once more although it is seen on neither tick.
\<close>

theorem broadcast_after_mode_switch_counterexample:
  "\<not> (0 \<in> set (fst (clientVisible duelTable (createSpatialGrid [wallS2]) (losClient True)
                      \<lparr>vx = 0, vy = 0, vz = 0\<rparr>
                      (snd (clientVisible duelTable (createSpatialGrid [wallS2]) (losClient False)
                              \<lparr>vx = 0, vy = 0, vz = 0\<rparr> []))))
       \<longrightarrow> canSeeEntity \<lparr>vx = 0, vy = 0, vz = 0\<rparr> \<lparr>vx = 20, vy = 0, vz = 0\<rparr> (createSpatialGrid [wallS2])
         \<or> canSeeEntity \<lparr>vx = 0, vy = 0, vz = 0\<rparr> \<lparr>vx = 20, vy = 0, vz = 0\<rparr> (createSpatialGrid [wallS2])
         \<or> (\<not> losMode (losClient True)
            \<and> sqrt ((20 - 0) * (20 - 0) + (0 - 0) * (0 - 0) + (0 - 0) * (0 - 0)) \<le> viewDistance (losClient True)))"
proof -
  have lm: "losMode (losClient True)" by (simp add: losClient_def)
  show ?thesis
    using wallS2_hides lm by (simp add: classical_tick_wall los_tick_wall)
qed

text \<open>
  Claim C1, amended. An entity broadcast to a client on a tick is in the visible set
  computed on that tick (it is not the client's own entity, the test
  \<open>distSq > viewDistanceSq\<close> of \<open>getVisibleEntities\<close> is false for it, and the client is
  in classical mode or \<open>canSeeEntity\<close> returns true), or it is still in the entity table
  and was in the visible set computed for the client on the previous tick, with the
  positions and the mode of that tick. For positions made of numbers the distance test is
  false exactly when the squared distance is at most the squared view distance, and
  \<open>canSeeEntity\<close> is the test of four rays; with a NaN coordinate in either position the
  distance test is false, and with NaN in the \<open>x\<close> or \<open>z\<close> of either position
  \<open>canSeeEntity\<close> returns true. The computation of a tick returns (the loop of
  \<open>getCellsAlongRay\<close> ends) whenever the \<open>x\<close> and \<open>z\<close> of the positions are numbers of the
  terrain or NaN. The counters of the grace map never exceed LOS_GRACE_TICKS = 1, and an
  id that left the entity table does not come back (player ids are never reused): these
  are the two hypotheses on the grace map at the start of the previous tick.
\<close>

theorem broadcast_visible_now_or_before:
  assumes t1: "jsClientVisible table1 cells1 client1 pos1 grace0 = Some (final1, grace1)"
    and t2: "jsClientVisible table2 cells2 client2 pos2 grace1 = Some (final2, grace2)"
    and bound: "\<forall>(k, n) \<in> set grace0. n \<le> 1"
    and fresh: "\<forall>k \<in> fst ` set grace0. map_of table1 k = None \<longrightarrow> map_of table2 k = None"
    and sent: "i \<in> set final2"
  shows "((\<exists>entry. (i, entry) \<in> set table2 \<and> i \<noteq> cid client2
             \<and> \<not> jsBeyondViewDistance pos2 (entryPosition entry) (viewDistance client2)
             \<and> (\<not> losMode client2 \<or> jsCanSeeEntity pos2 (entryPosition entry) cells2 = Some True))
          \<or> (map_of table2 i \<noteq> None
             \<and> (\<exists>entry. (i, entry) \<in> set table1 \<and> i \<noteq> cid client1
                \<and> \<not> jsBeyondViewDistance pos1 (entryPosition entry) (viewDistance client1)
                \<and> (\<not> losMode client1 \<or> jsCanSeeEntity pos1 (entryPosition entry) cells1 = Some True))))
       \<and> (\<forall>v e d. \<not> jsBeyondViewDistance (jsVector v) (jsVector e) d
              \<longleftrightarrow> (vx e - vx v) * (vx e - vx v) + (vy e - vy v) * (vy e - vy v)
                    + (vz e - vz v) * (vz e - vz v) \<le> d * d)
       \<and> (\<forall>cs g v e. sameObstacles cs g
              \<longrightarrow> jsCanSeeEntity (jsVector v) (jsVector e) cs = Some (canSeeEntity v e g))
       \<and> (\<forall>vX vY vZ eX eY eZ d. vX = NaN \<or> vY = NaN \<or> vZ = NaN \<or> eX = NaN \<or> eY = NaN \<or> eZ = NaN
              \<longrightarrow> \<not> jsBeyondViewDistance (vX, vY, vZ) (eX, eY, eZ) d)
       \<and> (\<forall>vX vY vZ eX eY eZ cs. vX = NaN \<or> vZ = NaN \<or> eX = NaN \<or> eZ = NaN
              \<longrightarrow> jsCanSeeEntity (vX, vY, vZ) (eX, eY, eZ) cs = Some True)
       \<and> (\<forall>table cs client pos graceMap0.
              admissible pos \<and> list_all (\<lambda>(k, entry). admissible (entryPosition entry)) table
              \<longrightarrow> jsClientVisible table cs client pos graceMap0 \<noteq> None)"
proof -
  from t1 obtain vis1 where
    v1: "jsGetVisibleEntities pos1 (map (\<lambda>(i, entry). (i, entryPosition entry)) table1) cells1
           (viewDistance client1) (losMode client1) (cid client1) = Some vis1"
    and g1': "(\<forall>(k, n) \<in> set grace0. n \<le> 1) \<longrightarrow>
       map_of grace1 = (\<lambda>k. if k \<in> set vis1 then Some LOS_GRACE_TICKS
                            else if map_of table1 k \<noteq> None then None else map_of grace0 k)"
    by (rule jsClientVisible_parts)
  from t2 obtain vis2 where
    v2: "jsGetVisibleEntities pos2 (map (\<lambda>(i, entry). (i, entryPosition entry)) table2) cells2
           (viewDistance client2) (losMode client2) (cid client2) = Some vis2"
    and f2: "set final2 = set vis2 \<union> {k \<in> fst ` set grace1. k \<notin> set vis2 \<and> map_of table2 k \<noteq> None}"
    by (rule jsClientVisible_parts)
  from g1' bound have g1: "map_of grace1 = (\<lambda>k. if k \<in> set vis1 then Some LOS_GRACE_TICKS
                            else if map_of table1 k \<noteq> None then None else map_of grace0 k)"
    by simp
  have in1: "k \<in> set vis1 \<Longrightarrow> \<exists>entry. (k, entry) \<in> set table1 \<and> k \<noteq> cid client1
                \<and> \<not> jsBeyondViewDistance pos1 (entryPosition entry) (viewDistance client1)
                \<and> (\<not> losMode client1 \<or> jsCanSeeEntity pos1 (entryPosition entry) cells1 = Some True)" for k
    unfolding jsGetVisibleEntities_iff [OF v1] table_positions by blast
  have in2: "k \<in> set vis2 \<Longrightarrow> \<exists>entry. (k, entry) \<in> set table2 \<and> k \<noteq> cid client2
                \<and> \<not> jsBeyondViewDistance pos2 (entryPosition entry) (viewDistance client2)
                \<and> (\<not> losMode client2 \<or> jsCanSeeEntity pos2 (entryPosition entry) cells2 = Some True)" for k
    unfolding jsGetVisibleEntities_iff [OF v2] table_positions by blast
  have main: "(\<exists>entry. (i, entry) \<in> set table2 \<and> i \<noteq> cid client2
             \<and> \<not> jsBeyondViewDistance pos2 (entryPosition entry) (viewDistance client2)
             \<and> (\<not> losMode client2 \<or> jsCanSeeEntity pos2 (entryPosition entry) cells2 = Some True))
          \<or> (map_of table2 i \<noteq> None
             \<and> (\<exists>entry. (i, entry) \<in> set table1 \<and> i \<noteq> cid client1
                \<and> \<not> jsBeyondViewDistance pos1 (entryPosition entry) (viewDistance client1)
                \<and> (\<not> losMode client1 \<or> jsCanSeeEntity pos1 (entryPosition entry) cells1 = Some True)))"
  proof (cases "i \<in> set vis2")
    case True
    then show ?thesis using in2 by blast
  next
    case False
    with sent f2 have k: "i \<in> fst ` set grace1" and alive: "map_of table2 i \<noteq> None" by auto
    from k have "map_of grace1 i \<noteq> None" by (simp add: map_of_eq_None_iff)
    then have "i \<in> set vis1 \<or> (map_of table1 i = None \<and> map_of grace0 i \<noteq> None)"
      unfolding g1 by (auto split: if_splits)
    then have "i \<in> set vis1"
    proof
      assume "i \<in> set vis1" then show ?thesis .
    next
      assume h: "map_of table1 i = None \<and> map_of grace0 i \<noteq> None"
      then have mem: "i \<in> fst ` set grace0" by (simp add: map_of_eq_None_iff)
      from bspec [OF fresh mem] h have "map_of table2 i = None" by simp
      with alive show ?thesis by simp
    qed
    then show ?thesis using alive in1 by blast
  qed
  have fin: "\<forall>v e d. \<not> jsBeyondViewDistance (jsVector v) (jsVector e) d
              \<longleftrightarrow> (vx e - vx v) * (vx e - vx v) + (vy e - vy v) * (vy e - vy v)
                    + (vz e - vz v) * (vz e - vz v) \<le> d * d"
    by (simp add: jsBeyondViewDistance_finite not_less)
  have see: "\<forall>cs g v e. sameObstacles cs g
              \<longrightarrow> jsCanSeeEntity (jsVector v) (jsVector e) cs = Some (canSeeEntity v e g)"
    by (simp add: jsCanSeeEntity_finite)
  have nan1: "\<forall>vX vY vZ eX eY eZ d. vX = NaN \<or> vY = NaN \<or> vZ = NaN \<or> eX = NaN \<or> eY = NaN \<or> eZ = NaN
              \<longrightarrow> \<not> jsBeyondViewDistance (vX, vY, vZ) (eX, eY, eZ) d"
    by (intro allI impI jsBeyondViewDistance_nan)
  have nan2: "\<forall>vX vY vZ eX eY eZ cs. vX = NaN \<or> vZ = NaN \<or> eX = NaN \<or> eZ = NaN
              \<longrightarrow> jsCanSeeEntity (vX, vY, vZ) (eX, eY, eZ) cs = Some True"
    by (intro allI impI jsCanSeeEntity_nan)
  have ret: "\<forall>table cs client pos graceMap0.
              admissible pos \<and> list_all (\<lambda>(k, entry). admissible (entryPosition entry)) table
              \<longrightarrow> jsClientVisible table cs client pos graceMap0 \<noteq> None"
    by (simp add: jsClientVisible_returns)
  from main fin see nan1 nan2 ret show ?thesis by (intro conjI)
qed

text \<open>The theorem at the mode switch of the counterexample: the bot is sent on the second
  tick, and it was in the visible set of the first tick, in classical mode, at distance
  20. And at a client whose player is at \<open>x = NaN\<close>, in line-of-sight mode behind the
  wall: the bot is in the visible set of the tick.\<close>

theorem broadcast_visible_now_or_before_witness:
  "jsClientVisible duelEntries wallCells (losClient False) (Fin 0, Fin 0, Fin 0) [] = Some ([0], [(0, 1)])
   \<and> jsClientVisible duelEntries wallCells (losClient True) (Fin 0, Fin 0, Fin 0) [(0, 1)] = Some ([0], [])
   \<and> ((\<exists>entry. (0, entry) \<in> set duelEntries \<and> 0 \<noteq> cid (losClient True)
             \<and> \<not> jsBeyondViewDistance (Fin 0, Fin 0, Fin 0) (entryPosition entry) (viewDistance (losClient True))
             \<and> (\<not> losMode (losClient True)
                \<or> jsCanSeeEntity (Fin 0, Fin 0, Fin 0) (entryPosition entry) wallCells = Some True))
       \<or> (map_of duelEntries 0 \<noteq> None
          \<and> (\<exists>entry. (0, entry) \<in> set duelEntries \<and> 0 \<noteq> cid (losClient False)
             \<and> \<not> jsBeyondViewDistance (Fin 0, Fin 0, Fin 0) (entryPosition entry) (viewDistance (losClient False))
             \<and> (\<not> losMode (losClient False)
                \<or> jsCanSeeEntity (Fin 0, Fin 0, Fin 0) (entryPosition entry) wallCells = Some True))))
   \<and> jsClientVisible nanEntries wallCells (losClient True) (NaN, NaN, Fin 0) [(0, 1)] = Some ([0], [(0, 1)])
   \<and> ((\<exists>entry. (0, entry) \<in> set nanEntries \<and> 0 \<noteq> cid (losClient True)
             \<and> \<not> jsBeyondViewDistance (NaN, NaN, Fin 0) (entryPosition entry) (viewDistance (losClient True))
             \<and> (\<not> losMode (losClient True)
                \<or> jsCanSeeEntity (NaN, NaN, Fin 0) (entryPosition entry) wallCells = Some True))
       \<or> (map_of nanEntries 0 \<noteq> None
          \<and> (\<exists>entry. (0, entry) \<in> set duelEntries \<and> 0 \<noteq> cid (losClient False)
             \<and> \<not> jsBeyondViewDistance (Fin 0, Fin 0, Fin 0) (entryPosition entry) (viewDistance (losClient False))
             \<and> (\<not> losMode (losClient False)
                \<or> jsCanSeeEntity (Fin 0, Fin 0, Fin 0) (entryPosition entry) wallCells = Some True))))"
proof -
  have b: "\<forall>(k, n) \<in> set ([] :: (nat \<times> int) list). n \<le> 1" by simp
  have f: "\<forall>k \<in> fst ` set ([] :: (nat \<times> int) list). map_of duelEntries k = None \<longrightarrow> map_of duelEntries k = None"
    by simp
  have f': "\<forall>k \<in> fst ` set ([] :: (nat \<times> int) list). map_of duelEntries k = None \<longrightarrow> map_of nanEntries k = None"
    by simp
  have s: "0 \<in> set [0::nat]" by simp
  note a = broadcast_visible_now_or_before [OF duel_classical_tick duel_los_tick b f s, THEN conjunct1]
  note c = broadcast_visible_now_or_before [OF duel_classical_tick nan_los_tick b f' s, THEN conjunct1]
  from duel_classical_tick duel_los_tick a nan_los_tick c show ?thesis by (intro conjI)
qed

section \<open>C10: the grace entry is sent without a new test\<close>

text \<open>
  Claim C10. If an entity id is in the client's grace map, is not in the visible set
  computed on this tick and is still in the entity table, then the client's frame is
  built and holds that entity's entry, with the position the entity has in the table
  now: no distance and no line of sight is tested for it.
\<close>

theorem grace_entry_is_sent:
  assumes self: "map_of ents (cid client) = Some self"
    and grace: "i \<in> fst ` set clientGraceMap"
    and hidden: "i \<notin> set (getVisibleEntities (position self) (map (\<lambda>(j, ent). (j, position ent)) ents) g
                        (viewDistance client) (losMode client) (cid client))"
    and alive: "map_of ents i = Some ent"
  shows "\<exists>vs graceMap'. clientFrame ents g client clientGraceMap = Some (vs, graceMap')
           \<and> viewOf ent \<in> set vs \<and> viewPosition (viewOf ent) = position ent"
proof -
  obtain final graceMap' where cv:
    "clientVisible ents g client (position self) clientGraceMap = (final, graceMap')"
    by (cases "clientVisible ents g client (position self) clientGraceMap")
  have all: "\<forall>j \<in> set final. map_of ents j \<noteq> None"
    using clientVisible_in_table [of _ ents g client "position self" clientGraceMap] cv by simp
  have i: "i \<in> set final"
    using clientVisible_ids [of ents g client "position self" clientGraceMap] cv grace hidden alive
    by auto
  have frame: "clientFrame ents g client clientGraceMap
      = Some (map (\<lambda>j. viewOf (the (map_of ents j))) final, graceMap')"
    by (simp add: clientFrame_def self cv buildEntities_Some [OF all])
  have "viewOf ent \<in> set (map (\<lambda>j. viewOf (the (map_of ents j))) final)"
    using i alive by force
  then show ?thesis using frame by (simp add: viewOf_def)
qed

text \<open>In particular after a respawn: the bot was seen at (20, 0, 0) on the first tick, a
  deadly hit has moved it to (720, 0), far beyond the view distance of 200, and the frame
  of the second tick holds it at its new place.\<close>

theorem grace_entry_is_sent_witness:
  "\<exists>vs graceMap'.
      clientFrame [(0, teleportedBot), (1000, mkEntity 1000 True \<lparr>vx = 0, vy = 0, vz = 0\<rparr>)]
        (createSpatialGrid []) (losClient True)
        (snd (clientVisible duelTable (createSpatialGrid []) (losClient True) \<lparr>vx = 0, vy = 0, vz = 0\<rparr> []))
        = Some (vs, graceMap')
      \<and> viewOf teleportedBot \<in> set vs
      \<and> viewPosition (viewOf teleportedBot) = \<lparr>vx = 720, vy = getHeightAt 720 0, vz = 0\<rparr>
      \<and> viewDistance (losClient True) = 200"
proof -
  let ?ents = "[(0, teleportedBot), (1000, mkEntity 1000 True \<lparr>vx = 0, vy = 0, vz = 0\<rparr>)]"
  let ?self = "mkEntity 1000 True \<lparr>vx = 0, vy = 0, vz = 0\<rparr>"
  have self: "map_of ?ents (cid (losClient True)) = Some ?self"
    by (simp add: losClient_def)
  have grace: "0 \<in> fst ` set (snd (clientVisible duelTable (createSpatialGrid []) (losClient True)
                       \<lparr>vx = 0, vy = 0, vz = 0\<rparr> []))"
    by (simp add: los_tick_open)
  have far: "\<not> 518400 + getHeightAt 720 0 * getHeightAt 720 0 \<le> 40000"
    using zero_le_square [of "getHeightAt 720 0"] by linarith
  have hidden: "0 \<notin> set (getVisibleEntities (position ?self) (map (\<lambda>(j, ent). (j, position ent)) ?ents)
                        (createSpatialGrid []) (viewDistance (losClient True)) (losMode (losClient True))
                        (cid (losClient True)))"
    using far
    by (simp add: getVisibleEntities_def teleportedBot_eq losClient_def mkEntity_def VIEW_DISTANCE_def Let_def)
  have alive: "map_of ?ents 0 = Some teleportedBot" by simp
  from grace_entry_is_sent [OF self grace hidden alive]
  show ?thesis by (simp add: teleportedBot_eq viewOf_def losClient_def VIEW_DISTANCE_def)
qed

section \<open>C9: the fire-rate gate\<close>

lemma bulletsSpawn_clients:
  "fst (bulletsSpawn now ents cs bs n)
     = map (\<lambda>c. if canFire now c then c\<lparr>lastShotTime := now\<rparr> else c) cs"
  by (induction cs arbitrary: bs n) (simp_all add: split_beta Let_def split: option.splits)

lemma bulletsSpawn_bullets:
  assumes "\<forall>c \<in> set cs. map_of ents (cid c) \<noteq> None"
  shows "\<exists>new. fst (snd (bulletsSpawn now ents cs bs n)) = bs @ new
           \<and> map ownerId new = map cid (filter (canFire now) cs)
           \<and> (\<forall>b \<in> set new. createdAt b = now)
           \<and> snd (snd (bulletsSpawn now ents cs bs n)) = n + length new"
  using assms
proof (induction cs arbitrary: bs n)
  case Nil
  then show ?case by simp
next
  case (Cons c cs)
  show ?case
  proof (cases "canFire now c")
    case True
    from Cons.prems obtain e where e: "map_of ents (cid c) = Some e" by auto
    from Cons.prems have rest: "\<forall>c \<in> set cs. map_of ents (cid c) \<noteq> None" by simp
    from Cons.IH [OF rest, of "bs @ [spawnBullet now n c e]" "Suc n"]
    obtain new where new: "fst (snd (bulletsSpawn now ents cs (bs @ [spawnBullet now n c e]) (Suc n)))
          = (bs @ [spawnBullet now n c e]) @ new"
        "map ownerId new = map cid (filter (canFire now) cs)"
        "\<forall>b \<in> set new. createdAt b = now"
        "snd (snd (bulletsSpawn now ents cs (bs @ [spawnBullet now n c e]) (Suc n))) = Suc n + length new"
      by blast
    have "fst (snd (bulletsSpawn now ents (c # cs) bs n)) = bs @ (spawnBullet now n c e # new)
        \<and> map ownerId (spawnBullet now n c e # new) = map cid (filter (canFire now) (c # cs))
        \<and> (\<forall>b \<in> set (spawnBullet now n c e # new). createdAt b = now)
        \<and> snd (snd (bulletsSpawn now ents (c # cs) bs n)) = n + length (spawnBullet now n c e # new)"
      using True e new by (simp add: split_beta spawnBullet_def Let_def)
    then show ?thesis by blast
  next
    case False
    from Cons.prems have rest: "\<forall>c \<in> set cs. map_of ents (cid c) \<noteq> None" by simp
    from Cons.IH [OF rest, of bs n] False show ?thesis by (simp add: split_beta)
  qed
qed


lemma sorted_wrt_distinct_owner:
  assumes "distinct (map f xs)"
  shows "sorted_wrt (\<lambda>a b. f a = f b \<longrightarrow> Q a b) xs"
  using assms by (induction xs) auto

lemma tick_keeps_spacing:
  assumes d: "distinct (map cid cs)"
    and ex: "\<forall>c \<in> set cs. map_of ents (cid c) \<noteq> None"
    and rec: "shotsRecorded cs bs"
    and sp: "spacedShots bs"
  shows "spacedShots (fst (snd (bulletsSpawn now ents cs bs n)))"
    and "shotsRecorded (fst (bulletsSpawn now ents cs bs n)) (fst (snd (bulletsSpawn now ents cs bs n)))"
proof -
  from bulletsSpawn_bullets [OF ex, of now bs n]
  obtain new where new: "fst (snd (bulletsSpawn now ents cs bs n)) = bs @ new"
      "map ownerId new = map cid (filter (canFire now) cs)"
      "\<forall>b \<in> set new. createdAt b = now"
    by blast
  have owners: "\<And>b. b \<in> set new \<Longrightarrow> \<exists>c \<in> set cs. canFire now c \<and> ownerId b = cid c"
  proof -
    fix b assume "b \<in> set new"
    then have "ownerId b \<in> set (map ownerId new)" by simp
    then have "ownerId b \<in> set (map cid (filter (canFire now) cs))" using new(2) by simp
    then show "\<exists>c \<in> set cs. canFire now c \<and> ownerId b = cid c" by auto
  qed
  have dn: "distinct (map ownerId new)"
    unfolding new(2) using d by (rule distinct_map_filter)
  have s_new: "sorted_wrt (\<lambda>a b. ownerId a = ownerId b \<longrightarrow> real_of_int (createdAt b - createdAt a) \<ge> FIRE_INTERVAL) new"
    using dn by (rule sorted_wrt_distinct_owner)
  have cross: "\<forall>a \<in> set bs. \<forall>b \<in> set new.
      ownerId a = ownerId b \<longrightarrow> real_of_int (createdAt b - createdAt a) \<ge> FIRE_INTERVAL"
  proof (intro ballI impI)
    fix a b assume a: "a \<in> set bs" and b: "b \<in> set new" and o: "ownerId a = ownerId b"
    from owners [OF b] obtain c where c: "c \<in> set cs" "canFire now c" "ownerId b = cid c" by blast
    from rec a c o have "createdAt a \<le> lastShotTime c" by (simp add: shotsRecorded_def)
    moreover from c(2) have "real_of_int (now - lastShotTime c) \<ge> FIRE_INTERVAL"
      by (simp add: canFire_def)
    moreover have "createdAt b = now" using new(3) b by simp
    ultimately show "real_of_int (createdAt b - createdAt a) \<ge> FIRE_INTERVAL" by simp
  qed
  show "spacedShots (fst (snd (bulletsSpawn now ents cs bs n)))"
    unfolding new(1) spacedShots_def sorted_wrt_append
    using sp s_new cross by (simp add: spacedShots_def)
  show "shotsRecorded (fst (bulletsSpawn now ents cs bs n)) (fst (snd (bulletsSpawn now ents cs bs n)))"
    unfolding shotsRecorded_def bulletsSpawn_clients new(1)
  proof (intro ballI impI)
    fix c' b
    assume c': "c' \<in> set (map (\<lambda>c. if canFire now c then c\<lparr>lastShotTime := now\<rparr> else c) cs)"
      and b: "b \<in> set (bs @ new)" and o: "ownerId b = cid c'"
    from c' obtain c where c: "c \<in> set cs" "c' = (if canFire now c then c\<lparr>lastShotTime := now\<rparr> else c)"
      by auto
    have idc: "cid c' = cid c" using c(2) by simp
    show "createdAt b \<le> lastShotTime c'"
    proof (cases "b \<in> set bs")
      case True
      with rec c(1) o idc have old: "createdAt b \<le> lastShotTime c" by (simp add: shotsRecorded_def)
      show ?thesis
      proof (cases "canFire now c")
        case True
        then have "real_of_int (now - lastShotTime c) \<ge> FIRE_INTERVAL" by (simp add: canFire_def)
        then have "lastShotTime c \<le> now" by (simp add: FIRE_INTERVAL_def FIRE_RATE_def)
        with old True c(2) show ?thesis by simp
      next
        case False
        with old c(2) show ?thesis by simp
      qed
    next
      case False
      with b have bn: "b \<in> set new" by simp
      from owners [OF bn] obtain c2 where c2: "c2 \<in> set cs" "canFire now c2" "ownerId b = cid c2" by blast
      from c2(3) o idc have "cid c2 = cid c" by simp
      with d c(1) c2(1) have "c2 = c" by (meson distinct_map inj_onD)
      with c2(2) c(2) have "lastShotTime c' = now" by simp
      moreover have "createdAt b = now" using new(3) bn by simp
      ultimately show ?thesis by simp
    qed
  qed
qed

lemma bulletsSpawn_keeps_clients:
  "map cid (fst (bulletsSpawn now ents cs bs n)) = map cid cs"
  unfolding bulletsSpawn_clients by (induction cs) auto

lemma serverRun_spacing:
  assumes "distinct (map cid cs)"
    and "\<forall>c \<in> set cs. map_of ents (cid c) \<noteq> None"
    and "shotsRecorded cs bs"
    and "spacedShots bs"
  shows "spacedShots (fst (snd (serverRun es ents cs bs n)))"
  using assms
proof (induction es ents cs bs n rule: serverRun.induct)
  case (1 ents cs bs counter)
  then show ?case by simp
next
  case (2 now es ents cs bs counter)
  obtain cs' bs' counter' where r: "bulletsSpawn now ents cs bs counter = (cs', bs', counter')"
    by (cases "bulletsSpawn now ents cs bs counter")
  have ids: "map cid cs' = map cid cs"
    using bulletsSpawn_keeps_clients [of now ents cs bs counter] r by simp
  have d': "distinct (map cid cs')" using ids "2.prems"(1) by simp
  have ex': "\<forall>c \<in> set cs'. map_of ents (cid c) \<noteq> None"
  proof
    fix c assume "c \<in> set cs'"
    then have "cid c \<in> set (map cid cs')" by simp
    then have "cid c \<in> set (map cid cs)" using ids by simp
    then show "map_of ents (cid c) \<noteq> None" using "2.prems"(2) by auto
  qed
  from tick_keeps_spacing [OF "2.prems", of now counter] r
  have "spacedShots bs'" "shotsRecorded cs' bs'" by simp_all
  from "2.IH" [OF refl r [symmetric] refl d' ex' this(2) this(1)] r show ?case by simp
next
  case (3 k f es ents cs bs counter)
  let ?cs = "map (\<lambda>c. if cid c = k then c\<lparr>shooting := f\<rparr> else c) cs"
  have comp: "cid \<circ> (\<lambda>c. if cid c = k then c\<lparr>shooting := f\<rparr> else c) = cid"
    by (auto simp add: fun_eq_iff)
  have d': "distinct (map cid ?cs)" using "3.prems"(1) by (simp add: comp)
  have ex': "\<forall>c \<in> set ?cs. map_of ents (cid c) \<noteq> None" using "3.prems"(2) by auto
  have rec': "shotsRecorded ?cs bs" using "3.prems"(3) by (auto simp add: shotsRecorded_def)
  from "3.IH" [OF d' ex' rec' "3.prems"(4)] show ?case by simp
qed


lemma spaced_nth:
  fixes ts :: "int list"
  assumes "sorted_wrt (\<lambda>a b. b - a \<ge> 200) ts" and "i < length ts"
  shows "ts ! i \<ge> hd ts + 200 * int i"
  using assms
proof (induction ts arbitrary: i)
  case Nil
  then show ?case by simp
next
  case (Cons x xs)
  show ?case
  proof (cases i)
    case 0
    then show ?thesis by simp
  next
    case (Suc j)
    with Cons.prems have j: "j < length xs" by simp
    then have ne: "xs \<noteq> []" by auto
    from Cons.prems(1) have s: "sorted_wrt (\<lambda>a b. b - a \<ge> 200) xs" and h: "\<forall>y \<in> set xs. y - x \<ge> 200"
      by simp_all
    from Cons.IH [OF s j] have "xs ! j \<ge> hd xs + 200 * int j" .
    moreover from h ne have "hd xs - x \<ge> 200" by simp
    ultimately show ?thesis using Suc by simp
  qed
qed

lemma spaced_window:
  fixes ts :: "int list"
  assumes sp: "sorted_wrt (\<lambda>a b. b - a \<ge> 200) ts" and win: "\<forall>t \<in> set ts. T \<le> t \<and> t < T + 1000"
  shows "length ts \<le> 5"
proof (rule ccontr)
  assume "\<not> length ts \<le> 5"
  then have l: "5 < length ts" by simp
  then have ne: "ts \<noteq> []" by auto
  from spaced_nth [OF sp l] have "ts ! 5 \<ge> hd ts + 1000" by simp
  moreover from win ne have "T \<le> hd ts" by simp
  moreover from win l have "ts ! 5 < T + 1000" by simp
  ultimately show False by linarith
qed

lemma spacedShots_client:
  assumes "spacedShots bs"
  shows "sorted_wrt (\<lambda>a b. b - a \<ge> 200) (map createdAt (filter (\<lambda>b. ownerId b = k \<and> Q b) bs))"
proof -
  have "sorted_wrt (\<lambda>a b. ownerId a = ownerId b \<longrightarrow> real_of_int (createdAt b - createdAt a) \<ge> FIRE_INTERVAL)
          (filter (\<lambda>b. ownerId b = k \<and> Q b) bs)"
    using assms unfolding spacedShots_def by (rule sorted_wrt_filter)
  then have "sorted_wrt (\<lambda>a b. createdAt b - createdAt a \<ge> 200) (filter (\<lambda>b. ownerId b = k \<and> Q b) bs)"
    by (rule sorted_wrt_mono_rel [rotated]) (auto simp add: FIRE_INTERVAL_def FIRE_RATE_def)
  then show ?thesis by (simp add: sorted_wrt_map)
qed

lemma slowTicks_eq:
  "slowTicks = [1700000000000, 1700000000090, 1700000000180, 1700000000270, 1700000000360,
     1700000000450, 1700000000540, 1700000000630, 1700000000720, 1700000000810, 1700000000900,
     1700000000990]"
  unfolding slowTicks_def by code_simp

lemma nominalTicks_eq:
  "nominalTicks = [1700000000000, 1700000000033, 1700000000066, 1700000000100, 1700000000133,
     1700000000166, 1700000000200, 1700000000233, 1700000000266, 1700000000300, 1700000000333,
     1700000000366, 1700000000400, 1700000000433, 1700000000466, 1700000000500, 1700000000533,
     1700000000566, 1700000000600, 1700000000633, 1700000000666, 1700000000700, 1700000000733,
     1700000000766, 1700000000800, 1700000000833, 1700000000866, 1700000000900, 1700000000933,
     1700000000966]"
  unfolding nominalTicks_def by code_simp

lemma slow_run:
  "map createdAt (fst (snd (serverRun (heldFor slowTicks) shooterTable [shooter] [] 0)))
     = [1700000000000, 1700000000270, 1700000000540, 1700000000810]"
  by (simp add: heldFor_def slowTicks_eq shooter_def shooterTable_def canFire_def
        FIRE_INTERVAL_def FIRE_RATE_def spawnBullet_def Let_def)

text \<open>
  Claim C9 says that a bullet is spawned on a tick exactly when the client is shooting and
  at least 1000 / FIRE_RATE = 200 ms have passed since its last accepted shot, and that a
  client holding the fire button for 1.0 s gets exactly 5 bullets. The second part fails
  on the code: the gate compares wall-clock times at the ticks, and with ticks 90 ms apart
  the shots fall on the ticks at 0, 270, 540 and 810 ms, four in the second.
\<close>

theorem held_one_second_counterexample:
  "\<not> (length (fst (snd (serverRun (heldFor slowTicks) shooterTable [shooter] [] 0))) = 5)"
proof -
  have "length (map createdAt (fst (snd (serverRun (heldFor slowTicks) shooterTable [shooter] [] 0)))) = 4"
    unfolding slow_run by simp
  then show ?thesis by simp
qed

text \<open>
  Claim C9, amended. For clients with distinct ids: the bullets a tick adds are, in the
  order of the clients, one for each client that is shooting and whose last accepted shot
  is at least 200 ms old (so at most one per client and tick); of the bullets of one
  client, in the order they are spawned, every later one is at least 200 ms after every
  earlier one; and at most 5 bullets of a client are spawned at times in any window
  \<open>[T, T + 1000)\<close> of one second. (The bullet list starts empty and is only appended
  to here; expiry and hits remove bullets and cannot add any.)
\<close>

theorem fire_rate_gate:
  assumes d: "distinct (map cid cs)" and ex: "\<forall>c \<in> set cs. map_of ents (cid c) \<noteq> None"
  shows "take (length bs) (fst (snd (bulletsSpawn now ents cs bs n))) = bs
       \<and> map ownerId (drop (length bs) (fst (snd (bulletsSpawn now ents cs bs n))))
           = map cid (filter (\<lambda>c. shooting c \<and> now - lastShotTime c \<ge> 200) cs)
       \<and> sorted_wrt (\<lambda>a b. b - a \<ge> 200)
           (map createdAt (filter (\<lambda>b. ownerId b = k) (fst (snd (serverRun es ents cs [] n)))))
       \<and> length (filter (\<lambda>b. ownerId b = k \<and> T \<le> createdAt b \<and> createdAt b < T + 1000)
                   (fst (snd (serverRun es ents cs [] n)))) \<le> 5"
proof -
  from bulletsSpawn_bullets [OF ex, of now bs n]
  obtain new where new: "fst (snd (bulletsSpawn now ents cs bs n)) = bs @ new"
      "map ownerId new = map cid (filter (canFire now) cs)"
    by blast
  have cf: "canFire now = (\<lambda>c. shooting c \<and> now - lastShotTime c \<ge> 200)"
    by (auto simp add: canFire_def FIRE_INTERVAL_def FIRE_RATE_def fun_eq_iff)
  have a: "take (length bs) (fst (snd (bulletsSpawn now ents cs bs n))) = bs
       \<and> map ownerId (drop (length bs) (fst (snd (bulletsSpawn now ents cs bs n))))
           = map cid (filter (\<lambda>c. shooting c \<and> now - lastShotTime c \<ge> 200) cs)"
    using new by (simp add: cf)
  have sp: "spacedShots (fst (snd (serverRun es ents cs [] n)))"
    by (rule serverRun_spacing [OF d ex]) (simp_all add: shotsRecorded_def spacedShots_def)
  have b: "sorted_wrt (\<lambda>a b. b - a \<ge> 200)
           (map createdAt (filter (\<lambda>b. ownerId b = k) (fst (snd (serverRun es ents cs [] n)))))"
    using spacedShots_client [OF sp, of k "\<lambda>b. True"] by simp
  have "length (map createdAt (filter (\<lambda>b. ownerId b = k \<and> T \<le> createdAt b \<and> createdAt b < T + 1000)
                   (fst (snd (serverRun es ents cs [] n))))) \<le> 5"
    by (rule spaced_window [where T = T,
          OF spacedShots_client [OF sp, of k "\<lambda>b. T \<le> createdAt b \<and> createdAt b < T + 1000"]]) auto
  then have c: "length (filter (\<lambda>b. ownerId b = k \<and> T \<le> createdAt b \<and> createdAt b < T + 1000)
                   (fst (snd (serverRun es ents cs [] n)))) \<le> 5"
    by simp
  from a b c show ?thesis by blast
qed

lemma nominal_run:
  "map createdAt (fst (snd (serverRun (heldFor nominalTicks) shooterTable [shooter] [] 0)))
     = [1700000000000, 1700000000200, 1700000000400, 1700000000600, 1700000000800]"
  by (simp add: heldFor_def nominalTicks_eq shooter_def shooterTable_def canFire_def
        FIRE_INTERVAL_def FIRE_RATE_def spawnBullet_def Let_def)

lemma nominal_owners:
  "map ownerId (fst (snd (serverRun (heldFor nominalTicks) shooterTable [shooter] [] 0)))
     = [1000, 1000, 1000, 1000, 1000]"
  by (simp add: heldFor_def nominalTicks_eq shooter_def shooterTable_def canFire_def
        FIRE_INTERVAL_def FIRE_RATE_def spawnBullet_def Let_def)

text \<open>The theorem at one run: the client's last shot is long past when it presses the
  button, and the ticks come at the nominal 30 per second. In this run the shots fall at 0,
  200, 400, 600 and 800 ms of the second, so the bound 5 is reached; in general the
  theorem gives the bound only.\<close>

theorem fire_rate_gate_witness:
  "map ownerId (fst (snd (bulletsSpawn 1700000000000 shooterTable [shooter\<lparr>shooting := True\<rparr>] [] 0)))
     = [1000]
   \<and> length (filter (\<lambda>b. ownerId b = 1000 \<and> 1700000000000 \<le> createdAt b
                          \<and> createdAt b < 1700000000000 + 1000)
               (fst (snd (serverRun (heldFor nominalTicks) shooterTable [shooter] [] 0)))) \<le> 5
   \<and> map createdAt (fst (snd (serverRun (heldFor nominalTicks) shooterTable [shooter] [] 0)))
     = [1700000000000, 1700000000200, 1700000000400, 1700000000600, 1700000000800]"
proof -
  have d: "distinct (map cid [shooter])" by simp
  have ex: "\<forall>c \<in> set [shooter]. map_of shooterTable (cid c) \<noteq> None"
    by (simp add: shooter_def shooterTable_def)
  have d': "distinct (map cid [shooter\<lparr>shooting := True\<rparr>])" by simp
  have ex': "\<forall>c \<in> set [shooter\<lparr>shooting := True\<rparr>]. map_of shooterTable (cid c) \<noteq> None"
    by (simp add: shooter_def shooterTable_def)
  from fire_rate_gate [OF d' ex', where bs = "[]" and now = 1700000000000 and n = 0 and k = 1000
      and es = "[]" and T = 0]
  have a: "map ownerId (fst (snd (bulletsSpawn 1700000000000 shooterTable [shooter\<lparr>shooting := True\<rparr>] [] 0)))
     = [1000]"
    by (simp add: shooter_def)
  from fire_rate_gate [OF d ex, where bs = "[]" and now = 0 and n = 0 and k = 1000
      and es = "heldFor nominalTicks" and T = 1700000000000]
  have b: "length (filter (\<lambda>b. ownerId b = 1000 \<and> 1700000000000 \<le> createdAt b
                          \<and> createdAt b < 1700000000000 + 1000)
               (fst (snd (serverRun (heldFor nominalTicks) shooterTable [shooter] [] 0)))) \<le> 5"
    by simp
  from a b nominal_run show ?thesis by simp
qed

section \<open>C8: the grid and the entity table\<close>

subsection \<open>The grid on numbers and on JavaScript numbers\<close>

lemma map_of_lift:
  "map_of (map (\<lambda>(k, c). (jsKey k, c)) cs) (jsKey k) = map_of cs k"
  by (induction cs) (auto simp add: jsKey_inj)

lemma update_lift:
  "AList.update (jsKey k) c (map (\<lambda>(k, c). (jsKey k, c)) cs)
     = map (\<lambda>(k, c). (jsKey k, c)) (AList.update k c cs)"
  by (induction cs) (auto simp add: jsKey_inj)

lemma jsCellDelete_lift:
  "jsCellDelete (jsKey k) i (map (\<lambda>(k, c). (jsKey k, c)) cs)
     = map (\<lambda>(k, c). (jsKey k, c)) (cellDelete k i cs)"
  by (simp add: jsCellDelete_def cellDelete_def map_of_lift update_lift split: option.splits)

lemma jsCellAdd_lift:
  "jsCellAdd (jsKey k) i (map (\<lambda>(k, c). (jsKey k, c)) cs)
     = map (\<lambda>(k, c). (jsKey k, c)) (cellAdd k i cs)"
  by (simp add: jsCellAdd_def cellAdd_def Let_def map_of_lift update_lift split: option.splits)

lemma jsGetPackedCellKey_finite:
  "jsGetPackedCellKey (Fin x) (Fin z) = Fin (real_of_int (getPackedCellKey x z))"
  by (simp add: jsGetPackedCellKey_def getPackedCellKey_def Let_def js_fin)

lemma jsPackedToString_int:
  "jsPackedToString (Fin (real_of_int p)) = jsKey (packedToString p)"
proof -
  have d: "js_div (Fin (real_of_int p)) (Fin 10000) = Fin (real_of_int p / 10000)"
    by (simp add: js_div_def)
  have fl: "\<lfloor>real_of_int \<bar>p\<bar> / 10000\<rfloor> = \<bar>p\<bar> div 10000"
    using floor_divide_of_int_eq [of "\<bar>p\<bar>" 10000, where ?'a = real] by simp
  have "real_of_int (\<bar>p\<bar> mod 10000) = real_of_int \<bar>p\<bar> - 10000 * real_of_int (\<bar>p\<bar> div 10000)"
    using mult_div_mod_eq [of 10000 "\<bar>p\<bar>"] by linarith
  then have m: "sgn (real_of_int p) * (\<bar>real_of_int p\<bar> - \<bar>10000\<bar> * real_of_int \<lfloor>\<bar>real_of_int p\<bar> / \<bar>10000\<bar>\<rfloor>)
      = real_of_int (sgn p * (\<bar>p\<bar> mod 10000))"
    using fl by (simp add: sgn_if)
  show ?thesis
    unfolding jsPackedToString_def packedToString_def Let_def d jsKey_def
    using m by (simp add: js_remainder_def js_floor_def js_rem_def)
qed

lemma jsUpdateEntityInGrid_finite:
  "jsUpdateEntityInGrid (liftGrid s) entityId (jsVector newPos) = liftGrid (updateEntityInGrid s entityId newPos)"
proof (cases "entityCellsPacked s entityId")
  case None
  then show ?thesis
    by (simp add: jsUpdateEntityInGrid_def updateEntityInGrid_def liftGrid_def jsVector_def Let_def
        jsGetPackedCellKey_finite jsPackedToString_int jsCellAdd_lift fun_eq_iff)
next
  case (Some p)
  then show ?thesis
    by (simp add: jsUpdateEntityInGrid_def updateEntityInGrid_def liftGrid_def jsVector_def Let_def
        jsGetPackedCellKey_finite jsPackedToString_int jsCellAdd_lift jsCellDelete_lift js_seq_def
        fun_eq_iff)
qed

lemma jsRemoveEntityFromGrid_finite:
  "jsRemoveEntityFromGrid (liftGrid s) entityId = liftGrid (removeEntityFromGrid s entityId)"
  by (cases "entityCellsPacked s entityId")
     (simp_all add: jsRemoveEntityFromGrid_def removeEntityFromGrid_def liftGrid_def
        jsPackedToString_int jsCellDelete_lift fun_eq_iff)

subsection \<open>The members of a cell\<close>

lemma members_jsCellDelete:
  "jsCellMembers (jsCellDelete k0 i cs) k
     = (if k = k0 then jsCellMembers cs k - {i} else jsCellMembers cs k)"
  by (simp add: jsCellMembers_def jsCellDelete_def update_conv' split: option.splits)

lemma members_jsCellAdd:
  "jsCellMembers (jsCellAdd k0 i cs) k
     = (if k = k0 then insert i (jsCellMembers cs k) else jsCellMembers cs k)"
  by (simp add: jsCellMembers_def jsCellAdd_def Let_def update_conv' emptyCell_def split: option.splits)

lemma jsGridInv_start:
  assumes "list_all (\<lambda>(k, c). cellEntities c = {}) cs"
  shows "jsGridInv Map.empty \<lparr>jsCells = cs, jsEntityCellsPacked = Map.empty\<rparr>"
proof -
  have "jsCellMembers cs k = {}" for k
  proof (cases "map_of cs k")
    case None
    then show ?thesis by (simp add: jsCellMembers_def)
  next
    case (Some c)
    then have "(k, c) \<in> set cs" by (rule map_of_SomeD)
    with assms have "cellEntities c = {}" by (auto simp add: list_all_iff)
    with Some show ?thesis by (simp add: jsCellMembers_def)
  qed
  then show ?thesis by (simp add: jsGridInv_def)
qed

lemma jsGridInv_update:
  assumes inv: "jsGridInv rec gs"
  shows "jsGridInv (rec(i \<mapsto> pos)) (jsUpdateEntityInGrid gs i pos)"
proof -
  obtain x y z where pos: "pos = (x, y, z)" by (cases pos)
  let ?pk = "\<lambda>pos. case pos of (x, y, z) \<Rightarrow> jsGetPackedCellKey x z"
  let ?S = "\<lambda>k. {j. \<exists>q. rec j = Some q \<and> jsFiledKey q = k}"
  let ?T = "\<lambda>k. {j. \<exists>q. (rec(i \<mapsto> pos)) j = Some q \<and> jsFiledKey q = k}"
  from inv have b: "\<And>j. jsEntityCellsPacked gs j = map_option ?pk (rec j)"
    and c: "\<And>k. jsCellMembers (jsCells gs) k = ?S k"
    unfolding jsGridInv_def by blast+
  have T: "\<And>k. ?T k = (if k = jsFiledKey pos then insert i (?S k - {i}) else ?S k - {i})"
    by (auto simp del: split_paired_Ex)
  have key: "jsPackedToString (jsGetPackedCellKey x z) = jsFiledKey pos"
    by (simp add: jsFiledKey_def pos)
  show ?thesis
  proof (cases "case jsEntityCellsPacked gs i of None \<Rightarrow> False | Some p \<Rightarrow> js_seq p (jsGetPackedCellKey x z)")
    case True
    then obtain q where q: "rec i = Some q" "js_seq (?pk q) (jsGetPackedCellKey x z)"
      using b [of i] by (cases "rec i") auto
    then have same: "?pk q = ?pk pos" by (simp add: js_seq_def pos)
    then have k: "jsFiledKey q = jsFiledKey pos" by (simp add: jsFiledKey_def split_beta)
    have still: "jsUpdateEntityInGrid gs i pos = gs"
      using True by (simp add: jsUpdateEntityInGrid_def pos Let_def)
    have "\<And>k. ?T k = ?S k" using q(1) k by (auto simp del: split_paired_Ex)
    moreover have "\<And>j. jsEntityCellsPacked gs j = map_option ?pk ((rec(i \<mapsto> pos)) j)"
      using b q(1) same by auto
    ultimately show ?thesis unfolding still jsGridInv_def using c by simp
  next
    case False
    let ?cs1 = "case jsEntityCellsPacked gs i of
                  None \<Rightarrow> jsCells gs
                | Some p \<Rightarrow> jsCellDelete (jsPackedToString p) i (jsCells gs)"
    have cells: "jsCells (jsUpdateEntityInGrid gs i pos) = jsCellAdd (jsFiledKey pos) i ?cs1"
      and packed: "jsEntityCellsPacked (jsUpdateEntityInGrid gs i pos)
          = (jsEntityCellsPacked gs)(i \<mapsto> jsGetPackedCellKey x z)"
      using False by (simp_all add: jsUpdateEntityInGrid_def pos Let_def key)
    have m1: "\<And>k. jsCellMembers ?cs1 k = ?S k - {i}"
    proof -
      fix k
      show "jsCellMembers ?cs1 k = ?S k - {i}"
      proof (cases "rec i")
        case None
        then have "jsEntityCellsPacked gs i = None" using b [of i] by simp
        moreover have "i \<notin> ?S k" using None by simp
        ultimately show ?thesis using c [of k] by simp
      next
        case (Some q)
        then have o: "jsEntityCellsPacked gs i = Some (?pk q)" using b [of i] by simp
        have kq: "jsPackedToString (?pk q) = jsFiledKey q" by (simp add: jsFiledKey_def split_beta)
        show ?thesis
        proof (cases "k = jsFiledKey q")
          case True
          then show ?thesis using c [of k] by (simp add: o kq members_jsCellDelete)
        next
          case False
          then have "i \<notin> ?S k" using Some by (auto simp del: split_paired_Ex)
          then show ?thesis using False c [of k] by (simp add: o kq members_jsCellDelete)
        qed
      qed
    qed
    have "\<And>k. jsCellMembers (jsCells (jsUpdateEntityInGrid gs i pos)) k = ?T k"
      unfolding cells T by (simp add: members_jsCellAdd m1)
    moreover have "\<And>j. jsEntityCellsPacked (jsUpdateEntityInGrid gs i pos) j
        = map_option ?pk ((rec(i \<mapsto> pos)) j)"
      unfolding packed using b by (simp add: pos)
    ultimately show ?thesis unfolding jsGridInv_def by simp
  qed
qed

lemma jsGridInv_remove:
  assumes inv: "jsGridInv rec gs"
  shows "jsGridInv (rec(i := None)) (jsRemoveEntityFromGrid gs i)"
proof -
  let ?pk = "\<lambda>pos. case pos of (x, y, z) \<Rightarrow> jsGetPackedCellKey x z"
  let ?S = "\<lambda>k. {j. \<exists>q. rec j = Some q \<and> jsFiledKey q = k}"
  let ?T = "\<lambda>k. {j. \<exists>q. (rec(i := None)) j = Some q \<and> jsFiledKey q = k}"
  from inv have b: "\<And>j. jsEntityCellsPacked gs j = map_option ?pk (rec j)"
    and c: "\<And>k. jsCellMembers (jsCells gs) k = ?S k"
    unfolding jsGridInv_def by blast+
  have T: "\<And>k. ?T k = ?S k - {i}" by (auto simp del: split_paired_Ex)
  show ?thesis
  proof (cases "rec i")
    case None
    then have "jsEntityCellsPacked gs i = None" using b [of i] by simp
    then have "jsRemoveEntityFromGrid gs i = gs" by (simp add: jsRemoveEntityFromGrid_def)
    moreover have "rec(i := None) = rec" using None by auto
    ultimately show ?thesis using inv by simp
  next
    case (Some q)
    then have o: "jsEntityCellsPacked gs i = Some (?pk q)" using b [of i] by simp
    have kq: "jsPackedToString (?pk q) = jsFiledKey q" by (simp add: jsFiledKey_def split_beta)
    have cells: "jsCells (jsRemoveEntityFromGrid gs i) = jsCellDelete (jsFiledKey q) i (jsCells gs)"
      and packed: "jsEntityCellsPacked (jsRemoveEntityFromGrid gs i) = (jsEntityCellsPacked gs)(i := None)"
      by (simp_all add: jsRemoveEntityFromGrid_def o kq)
    have "\<And>k. jsCellMembers (jsCells (jsRemoveEntityFromGrid gs i)) k = ?T k"
    proof -
      fix k
      show "jsCellMembers (jsCells (jsRemoveEntityFromGrid gs i)) k = ?T k"
      proof (cases "k = jsFiledKey q")
        case True
        then show ?thesis unfolding cells T using c [of k] by (simp add: members_jsCellDelete)
      next
        case False
        then have "i \<notin> ?S k" using Some by (auto simp del: split_paired_Ex)
        then show ?thesis unfolding cells T using False c [of k] by (simp add: members_jsCellDelete)
      qed
    qed
    moreover have "\<And>j. jsEntityCellsPacked (jsRemoveEntityFromGrid gs i) j
        = map_option ?pk ((rec(i := None)) j)"
      unfolding packed using b by simp
    ultimately show ?thesis unfolding jsGridInv_def by simp
  qed
qed

subsection \<open>Where the bots are put\<close>

lemma unit_scaled:
  assumes "unitRandom r" "0 < m" "m \<le> 2000"
  shows "- 1000 \<le> (r - 0.5) * m" "(r - 0.5) * m < 1000"
proof -
  from assms(1) have r: "0 \<le> r" "r < 1" by (simp_all add: unitRandom_def)
  have "- 0.5 * m \<le> (r - 0.5) * m" using r(1) assms(2) by (intro mult_right_mono) simp_all
  then show "- 1000 \<le> (r - 0.5) * m" using assms(3) by simp
  have "(r - 0.5) * m < 0.5 * m" using r(2) assms(2) by (intro mult_strict_right_mono) simp_all
  then show "(r - 0.5) * m < 1000" using assms(3) by simp
qed

lemma createBot_props:
  assumes "unitRandom r1" "unitRandom r2"
  shows "inWorld (position (createBot i (r1, r2, r3)))"
  using unit_scaled [OF assms(1), of 1900] unit_scaled [OF assms(2), of 1900]
  by (simp add: createBot_def Let_def inWorld_def geo)

lemma createBots_keys: "map fst (createBots rs) = [0..<length rs]"
proof -
  have "fst \<circ> (\<lambda>(i, r). (i, createBot i r)) = (fst :: nat \<times> (real \<times> real \<times> real) \<Rightarrow> nat)"
    by (simp add: fun_eq_iff)
  then have "map fst (createBots rs) = map fst (enumerate 0 rs)"
    by (simp add: createBots_def)
  then show ?thesis by simp
qed

lemma createBots_inWorld:
  assumes "list_all (\<lambda>(r1, r2, r3). unitRandom r1 \<and> unitRandom r2 \<and> unitRandom r3) rs"
    and "(i, ent) \<in> set (createBots rs)"
  shows "inWorld (position ent)"
proof -
  from assms(2) have "i < length rs \<and> ent = createBot i (rs ! i)"
    by (auto simp add: createBots_def in_set_enumerate_eq)
  then obtain r where r: "r \<in> set rs" and e: "ent = createBot i r"
    using nth_mem by blast
  obtain r1 r2 r3 where rr: "r = (r1, r2, r3)" by (cases r)
  from assms(1) r rr have "unitRandom r1" "unitRandom r2" by (auto simp add: list_all_iff)
  then show ?thesis unfolding e rr by (rule createBot_props)
qed

lemma updateBot_inWorld:
  assumes "inWorld (position theBot)"
  shows "inWorld (position (fst (updateBot theBot deltaTime cache rng)))"
  using assms unfolding inWorld_def updateBot_def Let_def split_beta
  by (auto simp add: geo)

subsection \<open>Positions of the table\<close>

lemma posOf_update: "posOf (AList.update k entry table) = (posOf table)(k \<mapsto> entryPosition entry)"
  by (simp add: posOf_def update_conv' fun_eq_iff)

lemma posOf_delete: "posOf (AList.delete k table) = (posOf table)(k := None)"
  by (simp add: posOf_def delete_conv' fun_eq_iff)

lemma posOf_same:
  assumes "map_of table k = Some entry" "entryPosition entry' = entryPosition entry"
  shows "(posOf table)(k \<mapsto> entryPosition entry') = posOf table"
  using assms by (auto simp add: posOf_def fun_eq_iff)

lemma admissible_update:
  assumes "list_all (\<lambda>(i, entry). admissible (entryPosition entry)) table"
    and "admissible (entryPosition entry)"
  shows "list_all (\<lambda>(i, entry). admissible (entryPosition entry)) (AList.update k entry table)"
  using assms by (induction table) (auto simp add: AList.update.simps)

lemma admissible_delete:
  assumes "list_all (\<lambda>(i, entry). admissible (entryPosition entry)) table"
  shows "list_all (\<lambda>(i, entry). admissible (entryPosition entry)) (AList.delete k table)"
  using assms by (induction table) (auto simp add: AList.delete_eq)

lemma admissible_entry:
  assumes "list_all (\<lambda>(i, entry). admissible (entryPosition entry)) table"
    and "map_of table k = Some entry"
  shows "admissible (entryPosition entry)"
proof -
  from assms(2) have "(k, entry) \<in> set table" by (rule map_of_SomeD)
  with assms(1) show ?thesis by (auto simp add: list_all_iff)
qed

lemma admissible_finite:
  assumes "- 1000 \<le> x" "x < 1000" "- 1000 \<le> z" "z < 1000"
  shows "admissible (Fin x, y, Fin z)"
  using assms by (simp add: admissible_def inTerrain_def)

lemma admissible_jsVector: "inWorld p \<Longrightarrow> admissible (jsVector p)"
  by (simp add: inWorld_def jsVector_def admissible_finite)

lemma inWorld_of_admissible: "admissible (jsVector p) \<Longrightarrow> inWorld p"
  by (simp add: inWorld_def jsVector_def admissible_def inTerrain_def)

subsection \<open>The handlers\<close>

lemma jsWorldInv_connect:
  assumes "jsWorldInv w" "unitRandom r1" "unitRandom r2"
  shows "jsWorldInv (jsOpen r1 r2 w)"
proof -
  let ?x = "(r1 - 0.5) * 100" and ?z = "(r2 - 0.5) * 100"
  let ?p = "\<lparr>jsMove = (Fin 0, Fin 0), jsPosition = (Fin ?x, Fin (getHeightAt ?x ?z), Fin ?z),
             jsRotation = Fin 0, jsPitch = Fin 0\<rparr>"
  from assms(1) have d: "distinct (map fst (jsEntities w))"
    and g: "jsGridInv (posOf (jsEntities w)) (jsSpatial w)"
    and a: "list_all (\<lambda>(i, entry). admissible (entryPosition entry)) (jsEntities w)"
    by (simp_all add: jsWorldInv_def)
  have adm: "admissible (entryPosition (PlayerEntry ?p))"
    using unit_scaled [OF assms(2), of 100] unit_scaled [OF assms(3), of 100]
    by (simp add: admissible_finite)
  have "jsGridInv ((posOf (jsEntities w))(jsPlayerIdCounter w \<mapsto> jsPosition ?p))
          (jsUpdateEntityInGrid (jsSpatial w) (jsPlayerIdCounter w) (jsPosition ?p))"
    using g by (rule jsGridInv_update)
  then show ?thesis
    using d admissible_update [OF a adm]
    by (simp add: jsWorldInv_def jsOpen_def Let_def posOf_update distinct_update)
qed

lemma jsWorldInv_disconnect:
  assumes "jsWorldInv w"
  shows "jsWorldInv (jsClose k w)"
proof -
  from assms have d: "distinct (map fst (jsEntities w))"
    and g: "jsGridInv (posOf (jsEntities w)) (jsSpatial w)"
    and a: "list_all (\<lambda>(i, entry). admissible (entryPosition entry)) (jsEntities w)"
    by (simp_all add: jsWorldInv_def)
  have "jsWorldInv (w\<lparr>jsSpatial := jsRemoveEntityFromGrid (jsSpatial w) k,
                       jsEntities := AList.delete k (jsEntities w)\<rparr>)"
    using d jsGridInv_remove [OF g, of k] admissible_delete [OF a, of k]
    by (simp add: jsWorldInv_def posOf_delete distinct_delete)
  then show ?thesis using assms
    by (simp add: jsClose_def split: option.splits tableEntry.splits)
qed

lemma jsWorldInv_entry:
  assumes inv: "jsWorldInv w" and k: "map_of (jsEntities w) k = Some entry"
    and same: "entryPosition entry' = entryPosition entry"
  shows "jsWorldInv (w\<lparr>jsEntities := AList.update k entry' (jsEntities w)\<rparr>)"
proof -
  from inv have d: "distinct (map fst (jsEntities w))"
    and g: "jsGridInv (posOf (jsEntities w)) (jsSpatial w)"
    and a: "list_all (\<lambda>(i, entry). admissible (entryPosition entry)) (jsEntities w)"
    by (simp_all add: jsWorldInv_def)
  have adm: "admissible (entryPosition entry')" using admissible_entry [OF a k] same by simp
  show ?thesis
    using d g admissible_update [OF a adm] posOf_same [OF k same]
    by (simp add: jsWorldInv_def posOf_update distinct_update)
qed

lemma onInputFrame_position: "jsPosition (onInputFrame buffer p) = jsPosition p"
  by (simp add: onInputFrame_def split: option.splits)

lemma jsWorldInv_message:
  assumes "jsWorldInv w"
  shows "jsWorldInv (jsMessage k buffer w)"
proof (cases "map_of (jsEntities w) k")
  case None
  with assms show ?thesis by (simp add: jsMessage_def)
next
  case (Some entry)
  show ?thesis
  proof (cases entry)
    case (BotEntry ent)
    with Some assms show ?thesis by (simp add: jsMessage_def)
  next
    case (PlayerEntry p)
    have "jsWorldInv (w\<lparr>jsEntities := AList.update k (PlayerEntry (onInputFrame buffer p)) (jsEntities w)\<rparr>)"
      using assms Some by (rule jsWorldInv_entry) (simp add: PlayerEntry onInputFrame_position)
    then show ?thesis using Some PlayerEntry by (simp add: jsMessage_def)
  qed
qed

lemma jsWorldInv_json:
  assumes "jsWorldInv w"
  shows "jsWorldInv (jsJsonInput k moveX moveZ rot pit w)"
proof (cases "map_of (jsEntities w) k")
  case None
  with assms show ?thesis by (simp add: jsJsonInput_def)
next
  case (Some entry)
  show ?thesis
  proof (cases entry)
    case (BotEntry ent)
    with Some assms show ?thesis by (simp add: jsJsonInput_def)
  next
    case (PlayerEntry p)
    let ?p = "p\<lparr>jsMove := (moveX, moveZ),
                 jsRotation := (case rot of None \<Rightarrow> jsRotation p | Some r \<Rightarrow> r),
                 jsPitch := (case pit of None \<Rightarrow> jsPitch p | Some r \<Rightarrow> r)\<rparr>"
    have "jsWorldInv (w\<lparr>jsEntities := AList.update k (PlayerEntry ?p) (jsEntities w)\<rparr>)"
      using assms Some by (rule jsWorldInv_entry) (simp add: PlayerEntry)
    then show ?thesis using Some PlayerEntry by (simp add: jsJsonInput_def)
  qed
qed

lemma jsWorldInv_respawn:
  assumes "jsWorldInv w" "unitRandom r1" "unitRandom r2"
  shows "jsWorldInv (jsRespawn k r1 r2 w)"
proof (cases "map_of (jsEntities w) k")
  case None
  with assms(1) show ?thesis by (simp add: jsRespawn_def)
next
  case (Some entry)
  from assms(1) have d: "distinct (map fst (jsEntities w))"
    and g: "jsGridInv (posOf (jsEntities w)) (jsSpatial w)"
    and a: "list_all (\<lambda>(i, entry). admissible (entryPosition entry)) (jsEntities w)"
    by (simp_all add: jsWorldInv_def)
  let ?x = "(r1 - 0.5) * (TERRAIN_SIZE - 200)" and ?z = "(r2 - 0.5) * (TERRAIN_SIZE - 200)"
  let ?e = "case entry of
              BotEntry ent \<Rightarrow>
                BotEntry (ent\<lparr>hp := maxHp ent, position := \<lparr>vx = ?x, vy = getHeightAt ?x ?z, vz = ?z\<rparr>\<rparr>)
            | PlayerEntry p \<Rightarrow> PlayerEntry (p\<lparr>jsPosition := (Fin ?x, Fin (getHeightAt ?x ?z), Fin ?z)\<rparr>)"
  have pos: "entryPosition ?e = (Fin ?x, Fin (getHeightAt ?x ?z), Fin ?z)"
    by (cases entry) (simp_all add: jsVector_def)
  have adm: "admissible (entryPosition ?e)"
    unfolding pos
    using unit_scaled [OF assms(2), of 1800] unit_scaled [OF assms(3), of 1800]
    by (intro admissible_finite) (simp_all add: geo)
  have "jsGridInv ((posOf (jsEntities w))(k \<mapsto> entryPosition ?e))
          (jsUpdateEntityInGrid (jsSpatial w) k (entryPosition ?e))"
    using g by (rule jsGridInv_update)
  then have "jsWorldInv (w\<lparr>jsEntities := AList.update k ?e (jsEntities w),
               jsSpatial := jsUpdateEntityInGrid (jsSpatial w) k (entryPosition ?e)\<rparr>)"
    using d admissible_update [OF a adm]
    by (simp add: jsWorldInv_def posOf_update distinct_update)
  then show ?thesis unfolding jsRespawn_def Let_def Some option.case .
qed

subsection \<open>The new world\<close>

lemma list_all_update:
  assumes "list_all P al" "P (k, v)"
  shows "list_all P (AList.update k v al)"
  using assms by (induction al) (auto simp add: AList.update.simps)

lemma pushObstacle_empty:
  assumes "list_all (\<lambda>(k, c). cellEntities c = {}) cs"
  shows "list_all (\<lambda>(k, c). cellEntities c = {}) (pushObstacle ob cs key)"
proof -
  let ?P = "\<lambda>(k, c). cellEntities c = {}"
  let ?cs1 = "if map_of cs key = None then AList.update key emptyCell cs else cs"
  have one: "list_all ?P ?cs1"
    using assms by (simp add: list_all_update emptyCell_def)
  show ?thesis
  proof (cases "map_of ?cs1 key")
    case None
    then show ?thesis using one by (simp add: pushObstacle_def Let_def)
  next
    case (Some c)
    then have "(key, c) \<in> set ?cs1" by (rule map_of_SomeD)
    with one have "cellEntities c = {}" by (auto simp add: list_all_iff)
    then have "list_all ?P (AList.update key (c\<lparr>cellObstacles := cellObstacles c @ [ob]\<rparr>) ?cs1)"
      using one by (intro list_all_update) simp_all
    then show ?thesis using Some by (simp add: pushObstacle_def Let_def)
  qed
qed

lemma foldl_pushObstacle_empty:
  assumes "list_all (\<lambda>(k, c). cellEntities c = {}) cs"
  shows "list_all (\<lambda>(k, c). cellEntities c = {}) (foldl (pushObstacle ob) cs keys)"
  using assms
proof (induction keys arbitrary: cs)
  case Nil
  then show ?case by simp
next
  case (Cons key keys)
  from pushObstacle_empty [OF Cons.prems] show ?case
    unfolding foldl_Cons by (rule Cons.IH)
qed

lemma createSpatialGrid_empty_aux:
  assumes "list_all (\<lambda>(k, c). cellEntities c = {}) cs"
  shows "list_all (\<lambda>(k, c). cellEntities c = {})
           (foldl (\<lambda>cs ob. foldl (pushObstacle ob) cs (getOccupiedCells ob)) cs obs)"
  using assms
proof (induction obs arbitrary: cs)
  case Nil
  then show ?case by simp
next
  case (Cons ob obs)
  from foldl_pushObstacle_empty [OF Cons.prems] show ?case
    unfolding foldl_Cons by (rule Cons.IH)
qed

lemma createSpatialGrid_empty:
  "list_all (\<lambda>(k, c). cellEntities c = {}) (map (\<lambda>(k, c). (jsKey k, c)) (cells (createSpatialGrid obs)))"
proof -
  have "list_all (\<lambda>(k, c). cellEntities c = {}) (cells (createSpatialGrid obs))"
    unfolding createSpatialGrid_def using createSpatialGrid_empty_aux [of "[]" obs] by simp
  then show ?thesis by (simp add: list_all_iff split_beta)
qed

lemma jsGridInv_insertAll:
  assumes "jsGridInv rec gs" "distinct (map fst bots)"
  shows "jsGridInv (\<lambda>i. case map_of bots i of Some ent \<Rightarrow> Some (jsVector (position ent)) | None \<Rightarrow> rec i)
           (foldl (\<lambda>s (i, ent). jsUpdateEntityInGrid s i (jsVector (position ent))) gs bots)"
  using assms
proof (induction bots arbitrary: rec gs)
  case Nil
  then show ?case by simp
next
  case (Cons b bots)
  obtain i ent where b: "b = (i, ent)" by (cases b)
  from Cons.prems(2) b have dist: "distinct (map fst bots)" and fresh: "i \<notin> fst ` set bots" by simp_all
  have none: "map_of bots i = None" using fresh by (simp add: map_of_eq_None_iff)
  have "jsGridInv (rec(i \<mapsto> jsVector (position ent))) (jsUpdateEntityInGrid gs i (jsVector (position ent)))"
    using Cons.prems(1) by (rule jsGridInv_update)
  from Cons.IH [OF this dist]
  have "jsGridInv (\<lambda>j. case map_of bots j of Some e \<Rightarrow> Some (jsVector (position e))
                        | None \<Rightarrow> (rec(i \<mapsto> jsVector (position ent))) j)
          (foldl (\<lambda>s (i, ent). jsUpdateEntityInGrid s i (jsVector (position ent)))
             (jsUpdateEntityInGrid gs i (jsVector (position ent))) bots)" .
  moreover have "(\<lambda>j. case map_of bots j of Some e \<Rightarrow> Some (jsVector (position e))
                        | None \<Rightarrow> (rec(i \<mapsto> jsVector (position ent))) j)
      = (\<lambda>j. case map_of (b # bots) j of Some e \<Rightarrow> Some (jsVector (position e)) | None \<Rightarrow> rec j)"
    using b none by (auto simp add: fun_eq_iff split: option.splits)
  ultimately show ?case using b by simp
qed

lemma map_of_botEntries:
  "map_of (map (\<lambda>(i, ent). (i, BotEntry ent)) bots) j = map_option BotEntry (map_of bots j)"
  by (induction bots) auto

lemma jsWorldInv_init:
  assumes "list_all (\<lambda>(r1, r2, r3). unitRandom r1 \<and> unitRandom r2 \<and> unitRandom r3) rs"
  shows "jsWorldInv (jsInitializeWorld obs rs seed)"
proof -
  let ?bots = "createBots rs"
  let ?table = "map (\<lambda>(i, ent). (i, BotEntry ent)) ?bots"
  let ?gs0 = "\<lparr>jsCells = map (\<lambda>(k, c). (jsKey k, c)) (cells (createSpatialGrid obs)),
               jsEntityCellsPacked = Map.empty\<rparr>"
  have "fst \<circ> (\<lambda>(i, ent). (i, BotEntry ent)) = (fst :: nat \<times> entity \<Rightarrow> nat)"
    by (auto simp add: fun_eq_iff)
  then have keys: "map fst ?table = map fst ?bots" by simp
  have dist': "distinct (map fst ?table)" unfolding keys by (simp add: createBots_keys)
  have dist: "distinct (map fst ?bots)" by (simp add: createBots_keys)
  have "jsGridInv Map.empty ?gs0" using createSpatialGrid_empty by (rule jsGridInv_start)
  from jsGridInv_insertAll [OF this dist]
  have "jsGridInv (\<lambda>i. case map_of ?bots i of Some ent \<Rightarrow> Some (jsVector (position ent)) | None \<Rightarrow> None)
          (foldl (\<lambda>s (i, ent). jsUpdateEntityInGrid s i (jsVector (position ent))) ?gs0 ?bots)" .
  moreover have "(\<lambda>i. case map_of ?bots i of Some ent \<Rightarrow> Some (jsVector (position ent)) | None \<Rightarrow> None)
      = posOf ?table"
    by (auto simp add: posOf_def fun_eq_iff map_of_botEntries split: option.splits)
  ultimately have g: "jsGridInv (posOf ?table)
      (foldl (\<lambda>s (i, ent). jsUpdateEntityInGrid s i (jsVector (position ent))) ?gs0 ?bots)"
    by simp
  have a: "list_all (\<lambda>(i, entry). admissible (entryPosition entry)) ?table"
    using createBots_inWorld [OF assms] by (auto simp add: list_all_iff admissible_jsVector)
  have "jsWorldInv \<lparr>jsEntities = ?table,
      jsSpatial = foldl (\<lambda>s (i, ent). jsUpdateEntityInGrid s i (jsVector (position ent))) ?gs0 ?bots,
      jsCache = cache, jsPlayerIdCounter = 1000, jsRngState = seed\<rparr>" for cache
    unfolding jsWorldInv_def jsWorld.simps using dist' g a by (intro conjI)
  then show ?thesis
    unfolding jsInitializeWorld_def Let_def .
qed

subsection \<open>The tick\<close>

lemma overlay_posOf:
  assumes "map fst table' = map fst table"
  shows "(\<lambda>i. case map_of table' i of Some e \<Rightarrow> Some (entryPosition e) | None \<Rightarrow> posOf table i)
           = posOf table'"
proof (rule ext)
  fix i
  show "(case map_of table' i of Some e \<Rightarrow> Some (entryPosition e) | None \<Rightarrow> posOf table i)
          = posOf table' i"
  proof (cases "map_of table' i")
    case None
    then have "i \<notin> set (map fst table')" by (simp add: map_of_eq_None_iff)
    then have "i \<notin> set (map fst table)" using assms by simp
    then have "map_of table i = None" by (simp add: map_of_eq_None_iff)
    with None show ?thesis by (simp add: posOf_def)
  next
    case (Some e)
    then show ?thesis by (simp add: posOf_def)
  qed
qed

lemma jsBotsUpdate_Cons:
  "fst (jsBotsUpdate deltaTime cache ((i, entry) # rest) rng) =
     (case entry of
        BotEntry ent \<Rightarrow>
          (i, BotEntry (fst (updateBot ent deltaTime cache rng)))
            # fst (jsBotsUpdate deltaTime cache rest (snd (updateBot ent deltaTime cache rng)))
      | PlayerEntry p \<Rightarrow> (i, PlayerEntry p) # fst (jsBotsUpdate deltaTime cache rest rng))"
  by (cases entry) (simp_all add: split_beta Let_def)

lemma jsBotsUpdate_keys:
  "map fst (fst (jsBotsUpdate deltaTime cache table rng)) = map fst table"
proof (induction table arbitrary: rng)
  case Nil
  show ?case by simp
next
  case (Cons b rest)
  obtain i entry where b: "b = (i, entry)" by (cases b)
  show ?case unfolding b jsBotsUpdate_Cons by (cases entry) (simp_all add: Cons.IH)
qed

lemma jsBotsUpdate_players:
  assumes "(i, PlayerEntry p) \<in> set (fst (jsBotsUpdate deltaTime cache table rng))"
  shows "(i, PlayerEntry p) \<in> set table"
  using assms
proof (induction table arbitrary: rng)
  case Nil
  then show ?case by simp
next
  case (Cons b rest)
  obtain j entry where b: "b = (j, entry)" by (cases b)
  show ?case
  proof (cases entry)
    case (BotEntry ent)
    with Cons.prems b
    have "(i, PlayerEntry p) \<in> set (fst (jsBotsUpdate deltaTime cache rest (snd (updateBot ent deltaTime cache rng))))"
      unfolding b jsBotsUpdate_Cons by simp
    then have "(i, PlayerEntry p) \<in> set rest" by (rule Cons.IH)
    then show ?thesis by simp
  next
    case (PlayerEntry q)
    with Cons.prems b
    have "(i, PlayerEntry p) = (j, PlayerEntry q) \<or>
        (i, PlayerEntry p) \<in> set (fst (jsBotsUpdate deltaTime cache rest rng))"
      unfolding b jsBotsUpdate_Cons by simp
    then show ?thesis
    proof
      assume "(i, PlayerEntry p) = (j, PlayerEntry q)"
      then show ?thesis using b PlayerEntry by simp
    next
      assume "(i, PlayerEntry p) \<in> set (fst (jsBotsUpdate deltaTime cache rest rng))"
      then have "(i, PlayerEntry p) \<in> set rest" by (rule Cons.IH)
      then show ?thesis by simp
    qed
  qed
qed

lemma jsBotsUpdate_admissible:
  assumes "list_all (\<lambda>(i, entry). admissible (entryPosition entry)) table"
  shows "list_all (\<lambda>(i, entry). admissible (entryPosition entry))
           (fst (jsBotsUpdate deltaTime cache table rng))"
  using assms
proof (induction table arbitrary: rng)
  case Nil
  then show ?case by simp
next
  case (Cons b rest)
  obtain j entry where b: "b = (j, entry)" by (cases b)
  from Cons.prems have rest: "list_all (\<lambda>(i, entry). admissible (entryPosition entry)) rest"
    and hd: "admissible (entryPosition entry)" using b by simp_all
  show ?case
  proof (cases entry)
    case (BotEntry ent)
    with hd have "inWorld (position ent)" by (simp add: inWorld_of_admissible)
    then have "admissible (jsVector (position (fst (updateBot ent deltaTime cache rng))))"
      by (intro admissible_jsVector updateBot_inWorld)
    then show ?thesis unfolding b jsBotsUpdate_Cons using BotEntry Cons.IH [OF rest] by simp
  next
    case (PlayerEntry q)
    then show ?thesis unfolding b jsBotsUpdate_Cons using hd Cons.IH [OF rest] by simp
  qed
qed

lemma jsBotsGridUpdate_inv:
  assumes "distinct (map fst table)" "jsGridInv rec gs"
    and "\<And>i p. (i, PlayerEntry p) \<in> set table \<Longrightarrow> rec i = Some (jsPosition p)"
  shows "jsGridInv (\<lambda>i. case map_of table i of Some e \<Rightarrow> Some (entryPosition e) | None \<Rightarrow> rec i)
           (jsBotsGridUpdate gs table)"
  using assms
proof (induction table arbitrary: rec gs)
  case Nil
  then show ?case by (simp add: jsBotsGridUpdate_def)
next
  case (Cons b table)
  obtain i entry where b: "b = (i, entry)" by (cases b)
  from Cons.prems(1) b have dist: "distinct (map fst table)" and fresh: "i \<notin> fst ` set table"
    by simp_all
  have none: "map_of table i = None" using fresh by (simp add: map_of_eq_None_iff)
  let ?gs1 = "case entry of BotEntry ent \<Rightarrow> jsUpdateEntityInGrid gs i (jsVector (position ent))
              | PlayerEntry p \<Rightarrow> gs"
  let ?rec1 = "rec(i \<mapsto> entryPosition entry)"
  have g1: "jsGridInv ?rec1 ?gs1"
  proof (cases entry)
    case (BotEntry ent)
    then show ?thesis using jsGridInv_update [OF Cons.prems(2), of i "jsVector (position ent)"]
      by simp
  next
    case (PlayerEntry p)
    then have "rec i = Some (jsPosition p)" using Cons.prems(3) [of i p] b by simp
    then have "?rec1 = rec" using PlayerEntry by (auto simp add: fun_eq_iff)
    then show ?thesis using Cons.prems(2) PlayerEntry by simp
  qed
  have pl: "\<And>j p. (j, PlayerEntry p) \<in> set table \<Longrightarrow> ?rec1 j = Some (jsPosition p)"
  proof -
    fix j p
    assume m: "(j, PlayerEntry p) \<in> set table"
    then have "j \<noteq> i" using fresh by force
    moreover have "rec j = Some (jsPosition p)" using Cons.prems(3) [of j p] m by simp
    ultimately show "?rec1 j = Some (jsPosition p)" by simp
  qed
  from Cons.IH [OF dist g1 pl]
  have "jsGridInv (\<lambda>j. case map_of table j of Some e \<Rightarrow> Some (entryPosition e) | None \<Rightarrow> ?rec1 j)
          (jsBotsGridUpdate ?gs1 table)" .
  moreover have "(\<lambda>j. case map_of table j of Some e \<Rightarrow> Some (entryPosition e) | None \<Rightarrow> ?rec1 j)
      = (\<lambda>j. case map_of (b # table) j of Some e \<Rightarrow> Some (entryPosition e) | None \<Rightarrow> rec j)"
    using b none by (auto simp add: fun_eq_iff split: option.splits)
  moreover have "jsBotsGridUpdate gs (b # table) = jsBotsGridUpdate ?gs1 table"
    using b by (simp add: jsBotsGridUpdate_def)
  ultimately show ?case by simp
qed

subsection \<open>The players of a tick\<close>

lemma jsPlayerCheckCollision_bound:
  assumes "\<not> jsPlayerCheckCollision cache x z"
  shows "inTerrain x \<and> inTerrain z"
proof -
  from assms have a: "\<not> js_ge (js_abs x) (Fin (TERRAIN_SIZE / 2 - 10))"
    and b: "\<not> js_ge (js_abs z) (Fin (TERRAIN_SIZE / 2 - 10))"
    by (auto simp add: jsPlayerCheckCollision_def Let_def split: if_splits)
  have "inTerrain c" if "\<not> js_ge (js_abs c) (Fin (TERRAIN_SIZE / 2 - 10))" for c
    using that by (cases c) (auto simp add: js_ge_def js_abs_def js_lt_def inTerrain_def geo)
  with a b show ?thesis by simp
qed

lemma jsPlayerStep_grid:
  "(fst (jsPlayerStep cache deltaTime i p gs) = p \<and> snd (jsPlayerStep cache deltaTime i p gs) = gs) \<or>
   snd (jsPlayerStep cache deltaTime i p gs)
     = jsUpdateEntityInGrid gs i (jsPosition (fst (jsPlayerStep cache deltaTime i p gs)))"
  by (simp add: jsPlayerStep_def Let_def split_beta)

lemma jsPlayerStep_admissible:
  assumes "admissible (jsPosition p)"
  shows "admissible (jsPosition (fst (jsPlayerStep cache deltaTime i p gs)))"
proof -
  obtain posX posY posZ where pos: "jsPosition p = (posX, posY, posZ)" by (cases "jsPosition p")
  obtain moveX moveZ where mv: "jsMove p = (moveX, moveZ)" by (cases "jsMove p")
  from assms pos have old: "inTerrain posX" "inTerrain posZ" by (simp_all add: admissible_def)
  show ?thesis
    unfolding jsPlayerStep_def Let_def pos mv prod.case
    using old assms pos
    by (auto simp add: admissible_def dest: jsPlayerCheckCollision_bound)
qed

lemma jsPlayersUpdate_Cons:
  "jsPlayersUpdate cache deltaTime ((i, entry) # rest) gs =
     (case entry of
        PlayerEntry p \<Rightarrow>
          ((i, PlayerEntry (fst (jsPlayerStep cache (Fin deltaTime) i p gs)))
             # fst (jsPlayersUpdate cache deltaTime rest (snd (jsPlayerStep cache (Fin deltaTime) i p gs))),
           snd (jsPlayersUpdate cache deltaTime rest (snd (jsPlayerStep cache (Fin deltaTime) i p gs))))
      | BotEntry ent \<Rightarrow>
          ((i, BotEntry ent) # fst (jsPlayersUpdate cache deltaTime rest gs),
           snd (jsPlayersUpdate cache deltaTime rest gs)))"
  by (cases entry) (simp_all add: split_beta Let_def)

lemma jsPlayersUpdate_keys:
  "map fst (fst (jsPlayersUpdate cache deltaTime table gs)) = map fst table"
proof (induction table arbitrary: gs)
  case Nil
  show ?case by simp
next
  case (Cons b rest)
  obtain i entry where b: "b = (i, entry)" by (cases b)
  show ?case unfolding b jsPlayersUpdate_Cons by (cases entry) (simp_all add: Cons.IH)
qed

lemma jsPlayersUpdate_admissible:
  assumes "list_all (\<lambda>(i, entry). admissible (entryPosition entry)) table"
  shows "list_all (\<lambda>(i, entry). admissible (entryPosition entry))
           (fst (jsPlayersUpdate cache deltaTime table gs))"
  using assms
proof (induction table arbitrary: gs)
  case Nil
  then show ?case by simp
next
  case (Cons b rest)
  obtain j entry where b: "b = (j, entry)" by (cases b)
  from Cons.prems have rest: "list_all (\<lambda>(i, entry). admissible (entryPosition entry)) rest"
    and hd: "admissible (entryPosition entry)" using b by simp_all
  show ?case
  proof (cases entry)
    case (BotEntry ent)
    then show ?thesis unfolding b jsPlayersUpdate_Cons using hd Cons.IH [OF rest] by simp
  next
    case (PlayerEntry q)
    with hd have "admissible (jsPosition (fst (jsPlayerStep cache (Fin deltaTime) j q gs)))"
      by (simp add: jsPlayerStep_admissible)
    then show ?thesis unfolding b jsPlayersUpdate_Cons using PlayerEntry Cons.IH [OF rest] by simp
  qed
qed

lemma jsPlayersUpdate_inv:
  assumes "distinct (map fst table)" "jsGridInv rec gs"
    and "\<And>i e. (i, e) \<in> set table \<Longrightarrow> rec i = Some (entryPosition e)"
  shows "jsGridInv
           (\<lambda>i. case map_of (fst (jsPlayersUpdate cache deltaTime table gs)) i of
                   Some e \<Rightarrow> Some (entryPosition e) | None \<Rightarrow> rec i)
           (snd (jsPlayersUpdate cache deltaTime table gs))"
  using assms
proof (induction table arbitrary: rec gs)
  case Nil
  then show ?case by simp
next
  case (Cons b table)
  obtain i entry where b: "b = (i, entry)" by (cases b)
  from Cons.prems(1) b have dist: "distinct (map fst table)" and fresh: "i \<notin> fst ` set table"
    by simp_all
  have here: "rec i = Some (entryPosition entry)" using Cons.prems(3) [of i entry] b by simp
  define entry' where "entry' = (case entry of
      PlayerEntry p \<Rightarrow> PlayerEntry (fst (jsPlayerStep cache (Fin deltaTime) i p gs))
    | BotEntry ent \<Rightarrow> BotEntry ent)"
  define gs1 where "gs1 = (case entry of
      PlayerEntry p \<Rightarrow> snd (jsPlayerStep cache (Fin deltaTime) i p gs)
    | BotEntry ent \<Rightarrow> gs)"
  let ?rec1 = "rec(i \<mapsto> entryPosition entry')"
  have unfold: "jsPlayersUpdate cache deltaTime (b # table) gs
      = ((i, entry') # fst (jsPlayersUpdate cache deltaTime table gs1),
         snd (jsPlayersUpdate cache deltaTime table gs1))"
    unfolding b jsPlayersUpdate_Cons entry'_def gs1_def by (cases entry) simp_all
  have g1: "jsGridInv ?rec1 gs1"
  proof (cases entry)
    case (BotEntry ent)
    then have "?rec1 = rec" using here by (auto simp add: fun_eq_iff entry'_def)
    then show ?thesis using Cons.prems(2) BotEntry by (simp add: gs1_def)
  next
    case (PlayerEntry p)
    let ?p' = "fst (jsPlayerStep cache (Fin deltaTime) i p gs)"
    from jsPlayerStep_grid [of cache "Fin deltaTime" i p gs]
    show ?thesis
    proof
      assume "?p' = p \<and> snd (jsPlayerStep cache (Fin deltaTime) i p gs) = gs"
      then have same: "?p' = p" and gs: "gs1 = gs" using PlayerEntry by (simp_all add: gs1_def)
      have "?rec1 = rec" using here PlayerEntry same by (auto simp add: fun_eq_iff entry'_def)
      then show ?thesis using Cons.prems(2) gs by simp
    next
      assume "snd (jsPlayerStep cache (Fin deltaTime) i p gs) = jsUpdateEntityInGrid gs i (jsPosition ?p')"
      then have "gs1 = jsUpdateEntityInGrid gs i (entryPosition entry')"
        using PlayerEntry by (simp add: gs1_def entry'_def)
      then show ?thesis using jsGridInv_update [OF Cons.prems(2), of i "entryPosition entry'"] by simp
    qed
  qed
  have pl: "\<And>j e. (j, e) \<in> set table \<Longrightarrow> ?rec1 j = Some (entryPosition e)"
  proof -
    fix j e
    assume m: "(j, e) \<in> set table"
    then have "j \<noteq> i" using fresh by force
    moreover have "rec j = Some (entryPosition e)" using Cons.prems(3) [of j e] m by simp
    ultimately show "?rec1 j = Some (entryPosition e)" by simp
  qed
  let ?rest' = "fst (jsPlayersUpdate cache deltaTime table gs1)"
  from Cons.IH [OF dist g1 pl]
  have "jsGridInv (\<lambda>j. case map_of ?rest' j of Some e \<Rightarrow> Some (entryPosition e) | None \<Rightarrow> ?rec1 j)
          (snd (jsPlayersUpdate cache deltaTime table gs1))" .
  moreover have "(\<lambda>j. case map_of ?rest' j of Some e \<Rightarrow> Some (entryPosition e) | None \<Rightarrow> ?rec1 j)
      = (\<lambda>j. case map_of ((i, entry') # ?rest') j of Some e \<Rightarrow> Some (entryPosition e) | None \<Rightarrow> rec j)"
  proof -
    have "i \<notin> set (map fst ?rest')" unfolding jsPlayersUpdate_keys using fresh by simp
    then have "map_of ?rest' i = None" by (simp add: map_of_eq_None_iff)
    then show ?thesis by (auto simp add: fun_eq_iff split: option.splits)
  qed
  ultimately show ?case unfolding unfold by simp
qed

lemma jsWorldInv_tick:
  assumes "jsWorldInv w"
  shows "jsWorldInv (jsTickMovement deltaTime w)"
proof -
  from assms have d: "distinct (map fst (jsEntities w))"
    and g: "jsGridInv (posOf (jsEntities w)) (jsSpatial w)"
    and a: "list_all (\<lambda>(i, entry). admissible (entryPosition entry)) (jsEntities w)"
    by (simp_all add: jsWorldInv_def)
  define table1 where "table1 = fst (jsBotsUpdate deltaTime (jsCache w) (jsEntities w) (jsRngState w))"
  define rng1 where "rng1 = snd (jsBotsUpdate deltaTime (jsCache w) (jsEntities w) (jsRngState w))"
  define gs1 where "gs1 = jsBotsGridUpdate (jsSpatial w) table1"
  define table2 where "table2 = fst (jsPlayersUpdate (jsCache w) deltaTime table1 gs1)"
  define gs2 where "gs2 = snd (jsPlayersUpdate (jsCache w) deltaTime table1 gs1)"
  have k1: "map fst table1 = map fst (jsEntities w)" unfolding table1_def by (rule jsBotsUpdate_keys)
  have k2: "map fst table2 = map fst table1" unfolding table2_def by (rule jsPlayersUpdate_keys)
  have d1: "distinct (map fst table1)" using d k1 by simp
  have d2: "distinct (map fst table2)" using d1 k2 by simp
  have a1: "list_all (\<lambda>(i, entry). admissible (entryPosition entry)) table1"
    unfolding table1_def using a by (rule jsBotsUpdate_admissible)
  have a2: "list_all (\<lambda>(i, entry). admissible (entryPosition entry)) table2"
    unfolding table2_def using a1 by (rule jsPlayersUpdate_admissible)
  have pl: "\<And>i p. (i, PlayerEntry p) \<in> set table1 \<Longrightarrow> posOf (jsEntities w) i = Some (jsPosition p)"
  proof -
    fix i p
    assume "(i, PlayerEntry p) \<in> set table1"
    then have "(i, PlayerEntry p) \<in> set (jsEntities w)"
      unfolding table1_def by (rule jsBotsUpdate_players)
    then have "map_of (jsEntities w) i = Some (PlayerEntry p)" using d by simp
    then show "posOf (jsEntities w) i = Some (jsPosition p)" by (simp add: posOf_def)
  qed
  have "jsGridInv (\<lambda>i. case map_of table1 i of Some e \<Rightarrow> Some (entryPosition e)
                        | None \<Rightarrow> posOf (jsEntities w) i) gs1"
    unfolding gs1_def using d1 g pl by (rule jsBotsGridUpdate_inv)
  then have g1: "jsGridInv (posOf table1) gs1" unfolding overlay_posOf [OF k1] .
  have all: "\<And>i e. (i, e) \<in> set table1 \<Longrightarrow> posOf table1 i = Some (entryPosition e)"
  proof -
    fix i e
    assume "(i, e) \<in> set table1"
    then have "map_of table1 i = Some e" using d1 by simp
    then show "posOf table1 i = Some (entryPosition e)" by (simp add: posOf_def)
  qed
  have "jsGridInv (\<lambda>i. case map_of table2 i of Some e \<Rightarrow> Some (entryPosition e)
                        | None \<Rightarrow> posOf table1 i) gs2"
    unfolding table2_def gs2_def using d1 g1 all by (rule jsPlayersUpdate_inv)
  then have g2: "jsGridInv (posOf table2) gs2" unfolding overlay_posOf [OF k2] .
  have "jsTickMovement deltaTime w = w\<lparr>jsEntities := table2, jsSpatial := gs2, jsRngState := rng1\<rparr>"
    by (simp add: jsTickMovement_def Let_def split_beta table1_def rng1_def gs1_def table2_def gs2_def)
  then show ?thesis using d2 g2 a2 by (simp add: jsWorldInv_def)
qed

subsection \<open>Every state the server reaches\<close>

lemma jsReachable_inv: "jsReachable w \<Longrightarrow> jsWorldInv w"
proof (induction rule: jsReachable.induct)
  case (init rs obs seed)
  then show ?case by (rule jsWorldInv_init)
next
  case (connect w r1 r2)
  then show ?case by (simp add: jsWorldInv_connect)
next
  case (disconnect w k)
  then show ?case by (simp add: jsWorldInv_disconnect)
next
  case (message w k buffer)
  then show ?case by (simp add: jsWorldInv_message)
next
  case (json w k moveX moveZ rot pit)
  then show ?case by (simp add: jsWorldInv_json)
next
  case (tick w deltaTime)
  then show ?case by (simp add: jsWorldInv_tick)
next
  case (respawn w r1 r2 k)
  then show ?case by (simp add: jsWorldInv_respawn)
qed

subsection \<open>Keys\<close>

lemma cell_range_js:
  assumes "- 1000 \<le> x" "x < 1000"
  shows "0 \<le> \<lfloor>(x + HALF_TERRAIN) * INV_CELL_SIZE\<rfloor>" "\<lfloor>(x + HALF_TERRAIN) * INV_CELL_SIZE\<rfloor> < 400"
proof -
  have e: "(x + HALF_TERRAIN) * INV_CELL_SIZE = (x + 1000) / 5" by (simp add: geo)
  show "0 \<le> \<lfloor>(x + HALF_TERRAIN) * INV_CELL_SIZE\<rfloor>" unfolding e using assms by simp
  have "(x + 1000) / 5 < 400" using assms by simp
  then show "\<lfloor>(x + HALF_TERRAIN) * INV_CELL_SIZE\<rfloor> < 400" unfolding e by (simp add: floor_less_iff)
qed

lemma jsPackedToString_pack:
  fixes a b :: int
  assumes "0 \<le> a" "0 \<le> b" "b < 10000"
  shows "jsPackedToString (Fin (real_of_int a * 10000 + real_of_int b)) = (Fin (real_of_int a), Fin (real_of_int b))"
proof -
  let ?v = "real_of_int a * 10000 + real_of_int b"
  have b: "0 \<le> real_of_int b" "real_of_int b < 10000" using assms by simp_all
  have a: "0 \<le> real_of_int a" using assms by simp
  have f: "\<lfloor>?v / 10000\<rfloor> = a"
  proof (rule floor_unique)
    show "real_of_int a \<le> ?v / 10000" using b by simp
    show "?v / 10000 < real_of_int a + 1" using b by simp
  qed
  have nn: "0 \<le> ?v" using a b by simp
  have r: "sgn ?v * (\<bar>?v\<bar> - \<bar>10000\<bar> * real_of_int \<lfloor>\<bar>?v\<bar> / \<bar>10000\<bar>\<rfloor>) = real_of_int b"
  proof (cases "?v = 0")
    case True
    with a b have "real_of_int b = 0" by linarith
    with True show ?thesis by simp
  next
    case False
    with nn have pos: "0 < ?v" by simp
    then have "sgn ?v = 1" by simp
    moreover have "\<bar>?v\<bar> = ?v" using nn by simp
    ultimately show ?thesis using f by simp
  qed
  have d: "js_div (Fin ?v) (Fin 10000) = Fin (?v / 10000)" by (simp add: js_div_def)
  have m: "js_remainder (Fin ?v) (Fin 10000) = Fin (real_of_int b)"
    using r by (simp add: js_remainder_def)
  show ?thesis unfolding jsPackedToString_def Let_def d m by (simp add: js_floor_def f)
qed

lemma jsFiledKey_finite:
  assumes "- 1000 \<le> x" "x < 1000" "- 1000 \<le> z" "z < 1000"
  shows "jsFiledKey (Fin x, y, Fin z) = jsGetCellKey (Fin x) (Fin z)"
proof -
  let ?a = "\<lfloor>(x + HALF_TERRAIN) * INV_CELL_SIZE\<rfloor>" and ?b = "\<lfloor>(z + HALF_TERRAIN) * INV_CELL_SIZE\<rfloor>"
  have k: "jsGetCellKey (Fin x) (Fin z) = (Fin (real_of_int ?a), Fin (real_of_int ?b))"
    by (simp add: jsGetCellKey_def Let_def js_add_def js_mul_def js_floor_def)
  have p: "jsGetPackedCellKey (Fin x) (Fin z) = Fin (real_of_int ?a * 10000 + real_of_int ?b)"
    by (simp add: jsGetPackedCellKey_def Let_def js_add_def js_mul_def js_floor_def)
  have "jsPackedToString (Fin (real_of_int ?a * 10000 + real_of_int ?b)) = (Fin (real_of_int ?a), Fin (real_of_int ?b))"
    using cell_range_js [OF assms(1,2)] cell_range_js [OF assms(3,4)]
    by (intro jsPackedToString_pack) simp_all
  then show ?thesis unfolding jsFiledKey_def prod.case p k .
qed

lemma jsGetPackedCellKey_nan:
  assumes "x = NaN \<or> z = NaN"
  shows "jsGetPackedCellKey x z = NaN"
  using assms
  by (cases x; cases z) (auto simp add: jsGetPackedCellKey_def Let_def js_add_def js_mul_def js_floor_def)

lemma jsFiledKey_nan:
  assumes "x = NaN \<or> z = NaN"
  shows "jsFiledKey (x, y, z) = (NaN, NaN)"
  unfolding jsFiledKey_def prod.case jsGetPackedCellKey_nan [OF assms]
  by (simp add: jsPackedToString_def Let_def js_div_def js_remainder_def js_floor_def)

lemma jsGetCellKey_nan:
  "fst (jsGetCellKey x z) = NaN \<longleftrightarrow> x = NaN"
  "snd (jsGetCellKey x z) = NaN \<longleftrightarrow> z = NaN"
  by (cases x; cases z; simp add: jsGetCellKey_def Let_def js_add_def js_mul_def js_floor_def geo)+

lemma jsFiledKey_admissible:
  assumes "admissible (x, y, z)"
  shows "jsFiledKey (x, y, z) = jsGetCellKey x z \<longleftrightarrow> (x = NaN \<longleftrightarrow> z = NaN)"
proof (cases "x = NaN \<or> z = NaN")
  case True
  then have "jsFiledKey (x, y, z) = (NaN, NaN)" by (rule jsFiledKey_nan)
  moreover have "jsGetCellKey x z = (NaN, NaN) \<longleftrightarrow> x = NaN \<and> z = NaN"
    using jsGetCellKey_nan [of x z] by (cases "jsGetCellKey x z") auto
  ultimately show ?thesis using True by auto
next
  case False
  with assms obtain a b where x: "x = Fin a" "- 1000 \<le> a" "a < 1000"
    and z: "z = Fin b" "- 1000 \<le> b" "b < 1000"
    by (cases x; cases z) (auto simp add: admissible_def inTerrain_def)
  then show ?thesis using jsFiledKey_finite [of a b y] by simp
qed

subsection \<open>Moving an entity\<close>

lemma jsUpdateEntityInGrid_same:
  assumes "jsEntityCellsPacked s i = Some p" "js_seq p (jsGetPackedCellKey x z)"
  shows "jsUpdateEntityInGrid s i (x, y, z) = s"
  using assms by (simp add: jsUpdateEntityInGrid_def Let_def)

lemma jsUpdateEntityInGrid_moved:
  assumes "jsEntityCellsPacked s i = Some p" "\<not> js_seq p (jsGetPackedCellKey x z)"
  shows "jsCells (jsUpdateEntityInGrid s i (x, y, z))
           = jsCellAdd (jsPackedToString (jsGetPackedCellKey x z)) i
               (jsCellDelete (jsPackedToString p) i (jsCells s))"
    and "jsEntityCellsPacked (jsUpdateEntityInGrid s i (x, y, z))
           = (jsEntityCellsPacked s)(i \<mapsto> jsGetPackedCellKey x z)"
  using assms by (simp_all add: jsUpdateEntityInGrid_def Let_def)

lemma jsPlayerStep_fst:
  "fst (jsPlayerStep cache deltaTime i p gs) = jsPlayerUpdate cache deltaTime p"
  by (simp add: jsPlayerStep_def jsPlayerUpdate_def Let_def split_beta)

subsection \<open>The two small worlds evaluated\<close>

lemma decode_nanXFrame:
  "decodeInput nanXFrame = Some \<lparr>inMoveX = NaN, inMoveZ = Fin 0, inRotation = Fin 0, inPitch = Fin 0\<rparr>"
  by (simp add: decodeInput_def nanXFrame_def getUint8_def getFloat32_def getUint32_def f32_val_def Let_def)

lemma filedGrid_eq:
  "filedGrid = \<lparr>jsCells = [((Fin 200, Fin 200), \<lparr>cellObstacles = [], cellEntities = {1000}\<rparr>)],
                jsEntityCellsPacked = [1000 \<mapsto> Fin 2000200]\<rparr>"
  by (simp add: filedGrid_def restingPlayer_def jsUpdateEntityInGrid_def jsGetPackedCellKey_def
      jsPackedToString_def js_floor_def js_mul_def js_add_def js_div_def js_remainder_def jsCellAdd_def
      emptyCell_def Let_def geo)

lemma openWorld_eq:
  "openWorld = \<lparr>jsEntities = [(1000, PlayerEntry restingPlayer)], jsSpatial = filedGrid,
                jsCache = buildNearbyObstaclesCache (createSpatialGrid []),
                jsPlayerIdCounter = 1001, jsRngState = 1\<rparr>"
  by (simp add: openWorld_def jsOpen_def jsInitializeWorld_def createBots_def createSpatialGrid_def
      Let_def restingPlayer_def filedGrid_def)

lemma nanX_step:
  "jsPlayerStep cache (Fin (1 / 30)) 1000 (onInputFrame nanXFrame restingPlayer) filedGrid
     = (\<lparr>jsMove = (NaN, Fin 0), jsPosition = (NaN, NaN, Fin 0), jsRotation = Fin 0, jsPitch = Fin 0\<rparr>,
        \<lparr>jsCells = [((Fin 200, Fin 200), \<lparr>cellObstacles = [], cellEntities = {}\<rparr>),
                    ((NaN, NaN), \<lparr>cellObstacles = [], cellEntities = {1000}\<rparr>)],
         jsEntityCellsPacked = [1000 \<mapsto> NaN]\<rparr>)"
proof -
  have first: "getUint8 nanXFrame 0 = Some 3" by (simp add: nanXFrame_def getUint8_def)
  have p1: "onInputFrame nanXFrame restingPlayer
      = \<lparr>jsMove = (NaN, Fin 0), jsPosition = (Fin 0, Fin (getHeightAt 0 0), Fin 0),
         jsRotation = Fin 0, jsPitch = Fin 0\<rparr>"
    by (simp add: onInputFrame_def first decode_nanXFrame restingPlayer_def)
  have cc: "\<not> jsPlayerCheckCollision cache NaN (Fin 0)"
    by (simp add: jsPlayerCheckCollision_def Let_def js_ge_def js_abs_def js_lt_def
        jsNearbyObstacles_def geo)
  have up: "jsUpdateEntityInGrid filedGrid 1000 (NaN, NaN, Fin 0)
      = \<lparr>jsCells = [((Fin 200, Fin 200), \<lparr>cellObstacles = [], cellEntities = {}\<rparr>),
                    ((NaN, NaN), \<lparr>cellObstacles = [], cellEntities = {1000}\<rparr>)],
         jsEntityCellsPacked = [1000 \<mapsto> NaN]\<rparr>"
    unfolding filedGrid_eq
    by (simp add: jsUpdateEntityInGrid_def jsGetPackedCellKey_def jsPackedToString_def js_floor_def
        js_mul_def js_add_def js_div_def js_remainder_def js_seq_def jsCellAdd_def jsCellDelete_def
        emptyCell_def Let_def geo)
  show ?thesis
    unfolding p1 jsPlayerStep_def
    using cc by (simp add: Let_def js_neq_def js_mul_def js_add_def jsGetHeightAt_def up)
qed

lemma nanWorld_eq:
  "nanWorld = \<lparr>jsEntities = [(1000, PlayerEntry \<lparr>jsMove = (NaN, Fin 0), jsPosition = (NaN, NaN, Fin 0),
                                                  jsRotation = Fin 0, jsPitch = Fin 0\<rparr>)],
               jsSpatial = \<lparr>jsCells = [((Fin 200, Fin 200), \<lparr>cellObstacles = [], cellEntities = {}\<rparr>),
                                       ((NaN, NaN), \<lparr>cellObstacles = [], cellEntities = {1000}\<rparr>)],
                            jsEntityCellsPacked = [1000 \<mapsto> NaN]\<rparr>,
               jsCache = buildNearbyObstaclesCache (createSpatialGrid []),
               jsPlayerIdCounter = 1001, jsRngState = 1\<rparr>"
  unfolding nanWorld_def openWorld_eq
  by (simp add: jsMessage_def jsTickMovement_def jsBotsGridUpdate_def Let_def nanX_step)

lemma openWorld_reachable: "jsReachable openWorld"
  unfolding openWorld_def
  by (intro jsReachable.connect jsReachable.init) (simp_all add: unitRandom_def)

lemma nanWorld_reachable: "jsReachable nanWorld"
  unfolding nanWorld_def
  by (intro jsReachable.tick jsReachable.message openWorld_reachable)

text \<open>Claim C8 says that in every state the server reaches, an entity of the table is in
  the entity set of the cell that \<open>getCellKey\<close> gives for its position. It fails on the
  code: a client connects, sends one INPUT frame whose \<open>moveX\<close> is NaN, and the server
  runs one tick. The player is then at \<open>x = NaN\<close>, \<open>z = 0\<close>; \<open>getCellKey\<close> gives the key
  \<open>NaN,200\<close>, for which the grid has no cell, and the player is in the entity set of the
  cell \<open>NaN,NaN\<close>, the text of its packed key NaN.\<close>

theorem nan_player_counterexample:
  "jsReachable nanWorld \<and>
   map_of (jsEntities nanWorld) 1000
     = Some (PlayerEntry \<lparr>jsMove = (NaN, Fin 0), jsPosition = (NaN, NaN, Fin 0),
                          jsRotation = Fin 0, jsPitch = Fin 0\<rparr>) \<and>
   jsGetCellKey NaN (Fin 0) = (NaN, Fin 200) \<and>
   map_of (jsCells (jsSpatial nanWorld)) (NaN, Fin 200) = None \<and>
   map_of (jsCells (jsSpatial nanWorld)) (NaN, NaN) = Some \<lparr>cellObstacles = [], cellEntities = {1000}\<rparr>"
  using nanWorld_reachable unfolding nanWorld_eq
  by (simp add: jsGetCellKey_def js_floor_def js_mul_def js_add_def Let_def geo)

text \<open>Claim C8, amended. In every state the server reaches by initialising the world and
  then handling connections, disconnections, INPUT messages (binary or JSON), the movement
  part of game ticks and respawn teleports, an entity of the table is in the entity set of
  exactly one cell: the cell whose key \<open>packedToString\<close> makes from the packed key of its
  position. That cell is the one \<open>getCellKey\<close> gives for the position exactly when \<open>x\<close>
  and \<open>z\<close> are both numbers or both NaN; when one of them is NaN the cell is \<open>NaN,NaN\<close>.
  Moving the entity with \<open>updateEntityInGrid\<close> changes nothing when the packed key of the
  new position is \<open>===\<close> the recorded one, which a NaN key never is; otherwise the entity
  is deleted from the cell of its old position and added to the cell of the new one, and the
  new packed key is recorded.\<close>

theorem grid_membership:
  assumes "jsReachable w" and "(i, entry) \<in> set (jsEntities w)"
    and "entryPosition entry = (x, y, z)"
  shows "(\<exists>c. map_of (jsCells (jsSpatial w)) (jsFiledKey (x, y, z)) = Some c \<and> i \<in> cellEntities c) \<and>
         (\<forall>k c. map_of (jsCells (jsSpatial w)) k = Some c \<and> i \<in> cellEntities c
             \<longrightarrow> k = jsFiledKey (x, y, z)) \<and>
         (jsFiledKey (x, y, z) = jsGetCellKey x z \<longleftrightarrow> (x = NaN \<longleftrightarrow> z = NaN)) \<and>
         (x = NaN \<or> z = NaN \<longrightarrow> jsFiledKey (x, y, z) = (NaN, NaN)) \<and>
         (\<forall>px py pz. js_seq (jsGetPackedCellKey x z) (jsGetPackedCellKey px pz)
             \<longrightarrow> jsUpdateEntityInGrid (jsSpatial w) i (px, py, pz) = jsSpatial w) \<and>
         (\<forall>px py pz. \<not> js_seq (jsGetPackedCellKey x z) (jsGetPackedCellKey px pz)
             \<longrightarrow> jsCells (jsUpdateEntityInGrid (jsSpatial w) i (px, py, pz))
                   = jsCellAdd (jsFiledKey (px, py, pz)) i
                       (jsCellDelete (jsFiledKey (x, y, z)) i (jsCells (jsSpatial w)))
                 \<and> jsEntityCellsPacked (jsUpdateEntityInGrid (jsSpatial w) i (px, py, pz))
                   = (jsEntityCellsPacked (jsSpatial w))(i \<mapsto> jsGetPackedCellKey px pz))"
proof -
  let ?rec = "posOf (jsEntities w)"
  let ?cs = "jsCells (jsSpatial w)"
  from jsReachable_inv [OF assms(1)]
  have dist: "distinct (map fst (jsEntities w))" and inv: "jsGridInv ?rec (jsSpatial w)"
    and adm: "list_all (\<lambda>(i, entry). admissible (entryPosition entry)) (jsEntities w)"
    by (simp_all add: jsWorldInv_def)
  from dist assms(2) have m: "map_of (jsEntities w) i = Some entry" by simp
  then have r: "?rec i = Some (x, y, z)" using assms(3) by (simp add: posOf_def)
  from adm assms(2,3) have a: "admissible (x, y, z)" by (auto simp add: list_all_iff)
  from inv have b: "\<And>j. jsEntityCellsPacked (jsSpatial w) j
        = map_option (\<lambda>pos. case pos of (x, y, z) \<Rightarrow> jsGetPackedCellKey x z) (?rec j)"
    and c: "\<And>k. jsCellMembers ?cs k = {j. \<exists>pos. ?rec j = Some pos \<and> jsFiledKey pos = k}"
    unfolding jsGridInv_def by blast+
  have "i \<in> jsCellMembers ?cs (jsFiledKey (x, y, z))" unfolding c using r by simp
  then have one: "\<exists>c. map_of ?cs (jsFiledKey (x, y, z)) = Some c \<and> i \<in> cellEntities c"
    by (simp add: jsCellMembers_def split: option.splits)
  have two: "\<forall>k c. map_of ?cs k = Some c \<and> i \<in> cellEntities c \<longrightarrow> k = jsFiledKey (x, y, z)"
  proof (intro allI impI)
    fix k c assume h: "map_of ?cs k = Some c \<and> i \<in> cellEntities c"
    then have "i \<in> jsCellMembers ?cs k" by (simp add: jsCellMembers_def)
    then show "k = jsFiledKey (x, y, z)" unfolding c using r by simp
  qed
  have three: "jsFiledKey (x, y, z) = jsGetCellKey x z \<longleftrightarrow> (x = NaN \<longleftrightarrow> z = NaN)"
    using a by (rule jsFiledKey_admissible)
  have four: "x = NaN \<or> z = NaN \<longrightarrow> jsFiledKey (x, y, z) = (NaN, NaN)"
    by (simp add: jsFiledKey_nan)
  have old: "jsEntityCellsPacked (jsSpatial w) i = Some (jsGetPackedCellKey x z)"
    using b [of i] r by simp
  have five: "\<forall>px py pz. js_seq (jsGetPackedCellKey x z) (jsGetPackedCellKey px pz)
             \<longrightarrow> jsUpdateEntityInGrid (jsSpatial w) i (px, py, pz) = jsSpatial w"
    using old by (simp add: jsUpdateEntityInGrid_same)
  have six: "\<forall>px py pz. \<not> js_seq (jsGetPackedCellKey x z) (jsGetPackedCellKey px pz)
             \<longrightarrow> jsCells (jsUpdateEntityInGrid (jsSpatial w) i (px, py, pz))
                   = jsCellAdd (jsFiledKey (px, py, pz)) i
                       (jsCellDelete (jsFiledKey (x, y, z)) i ?cs)
                 \<and> jsEntityCellsPacked (jsUpdateEntityInGrid (jsSpatial w) i (px, py, pz))
                   = (jsEntityCellsPacked (jsSpatial w))(i \<mapsto> jsGetPackedCellKey px pz)"
  proof (intro allI impI)
    fix px py pz
    assume ne: "\<not> js_seq (jsGetPackedCellKey x z) (jsGetPackedCellKey px pz)"
    from jsUpdateEntityInGrid_moved [OF old ne, of py]
    show "jsCells (jsUpdateEntityInGrid (jsSpatial w) i (px, py, pz))
                   = jsCellAdd (jsFiledKey (px, py, pz)) i
                       (jsCellDelete (jsFiledKey (x, y, z)) i ?cs)
                 \<and> jsEntityCellsPacked (jsUpdateEntityInGrid (jsSpatial w) i (px, py, pz))
                   = (jsEntityCellsPacked (jsSpatial w))(i \<mapsto> jsGetPackedCellKey px pz)"
      by (simp add: jsFiledKey_def)
  qed
  from one two three four five six show ?thesis by blast
qed

text \<open>The theorem at the player of a world with one connection, before and after the
  frame with the NaN: the player is in the cell \<open>200,200\<close> of the origin, and then in
  the cell \<open>NaN,NaN\<close> only.\<close>

theorem grid_membership_witness:
  "jsReachable openWorld \<and> (1000, PlayerEntry restingPlayer) \<in> set (jsEntities openWorld) \<and>
   entryPosition (PlayerEntry restingPlayer) = (Fin 0, Fin (getHeightAt 0 0), Fin 0) \<and>
   {k. \<exists>c. map_of (jsCells (jsSpatial openWorld)) k = Some c \<and> 1000 \<in> cellEntities c}
     = {jsGetCellKey (Fin 0) (Fin 0)} \<and>
   jsReachable nanWorld \<and>
   {k. \<exists>c. map_of (jsCells (jsSpatial nanWorld)) k = Some c \<and> 1000 \<in> cellEntities c}
     = {(NaN, NaN)}"
proof -
  have m1: "(1000, PlayerEntry restingPlayer) \<in> set (jsEntities openWorld)"
    by (simp add: openWorld_eq)
  have p1: "entryPosition (PlayerEntry restingPlayer) = (Fin 0, Fin (getHeightAt 0 0), Fin 0)"
    by (simp add: restingPlayer_def)
  have k1: "jsFiledKey (Fin 0, Fin (getHeightAt 0 0), Fin 0) = jsGetCellKey (Fin 0) (Fin 0)"
    by (rule jsFiledKey_finite) simp_all
  from grid_membership [OF openWorld_reachable m1 p1]
  have s1: "{k. \<exists>c. map_of (jsCells (jsSpatial openWorld)) k = Some c \<and> 1000 \<in> cellEntities c}
      = {jsGetCellKey (Fin 0) (Fin 0)}"
    unfolding k1 by blast
  let ?p = "\<lparr>jsMove = (NaN, Fin 0), jsPosition = (NaN, NaN, Fin 0), jsRotation = Fin 0, jsPitch = Fin 0\<rparr>"
  have m2: "(1000, PlayerEntry ?p) \<in> set (jsEntities nanWorld)"
    by (simp add: nanWorld_eq)
  have p2: "entryPosition (PlayerEntry ?p) = (NaN, NaN, Fin 0)" by simp
  have k2: "jsFiledKey (NaN, NaN, Fin 0) = (NaN, NaN)" by (simp add: jsFiledKey_nan)
  from grid_membership [OF nanWorld_reachable m2 p2]
  have s2: "{k. \<exists>c. map_of (jsCells (jsSpatial nanWorld)) k = Some c \<and> 1000 \<in> cellEntities c}
      = {(NaN, NaN)}"
    unfolding k2 by blast
  from openWorld_reachable m1 p1 s1 nanWorld_reachable s2 show ?thesis by blast
qed

section \<open>C4: INPUT frames with NaN or infinite fields\<close>

lemma decode_nanFrame:
  "decodeInput nanFrame = Some \<lparr>inMoveX = NaN, inMoveZ = NaN, inRotation = NaN, inPitch = NaN\<rparr>"
  by (simp add: decodeInput_def nanFrame_def getUint8_def getFloat32_def getUint32_def f32_val_def Let_def)

lemma decode_infFrame:
  "decodeInput infFrame = Some \<lparr>inMoveX = PosInf, inMoveZ = NegInf, inRotation = PosInf, inPitch = NegInf\<rparr>"
  by (simp add: decodeInput_def infFrame_def getUint8_def getFloat32_def getUint32_def f32_val_def Let_def)

lemma first_nanFrame: "getUint8 nanFrame 0 = Some 3"
  by (simp add: nanFrame_def getUint8_def)

text \<open>
  Claim C4 says that the server treats an INPUT frame with NaN or infinite fields as zero
  movement and previous-frame orientation. It fails on the code: after the frame with NaN
  in every field, the rotation and the pitch of a player at rest (both 0 before) are NaN,
  and the movement step of the next tick turns the position into (NaN, NaN, NaN).
\<close>

theorem nan_input_counterexample:
  "jsRotation restingPlayer = Fin 0 \<and> jsPitch restingPlayer = Fin 0 \<and>
   jsRotation (onInputFrame nanFrame restingPlayer) = NaN \<and>
   jsPitch (onInputFrame nanFrame restingPlayer) = NaN \<and>
   jsPosition (onInputFrame nanFrame restingPlayer) = (Fin 0, Fin (getHeightAt 0 0), Fin 0) \<and>
   jsPosition (jsPlayerUpdate [] (Fin (1 / 30)) (onInputFrame nanFrame restingPlayer)) = (NaN, NaN, NaN)"
  by (simp add: onInputFrame_def first_nanFrame decode_nanFrame restingPlayer_def jsPlayerUpdate_def
      Let_def js_neq_def js_mul_def js_add_def jsPlayerCheckCollision_def js_ge_def js_abs_def
      jsNearbyObstacles_def jsGetHeightAt_def)


lemma collision_at_infinity:
  assumes "x \<in> {PosInf, NegInf} \<or> z \<in> {PosInf, NegInf}"
  shows "jsPlayerCheckCollision cache x z"
  using assms
  by (cases x; cases z) (auto simp add: jsPlayerCheckCollision_def Let_def js_ge_def js_abs_def js_lt_def)

lemma no_collision_at_nan:
  assumes "\<bar>z\<bar> < 990"
  shows "\<not> jsPlayerCheckCollision cache NaN (Fin z)" "\<not> jsPlayerCheckCollision cache (Fin z) NaN"
  using assms
  by (simp_all add: jsPlayerCheckCollision_def Let_def js_ge_def js_abs_def js_lt_def
      jsNearbyObstacles_def geo)

lemma no_collision_at_nan_nan: "\<not> jsPlayerCheckCollision cache NaN NaN"
  by (simp add: jsPlayerCheckCollision_def Let_def js_ge_def js_abs_def js_lt_def jsNearbyObstacles_def)

lemma nan_candidate:
  "jsPlayerCheckCollision cache NaN z \<longleftrightarrow> js_ge (js_abs z) (Fin 990)"
  "jsPlayerCheckCollision cache x NaN \<longleftrightarrow> js_ge (js_abs x) (Fin 990)"
  by (cases z; cases x;
      simp add: jsPlayerCheckCollision_def Let_def js_ge_def js_abs_def js_lt_def jsNearbyObstacles_def geo)+

lemma infinite_step:
  assumes "m \<in> {PosInf, NegInf}" "0 < dt"
  shows "js_add (Fin x) (js_mul (js_mul m (Fin PLAYER_SPEED)) (Fin dt)) = m"
  using assms by (auto simp add: js_mul_def js_add_def PLAYER_SPEED_def)

lemma nan_step: "js_add (Fin x) (js_mul (js_mul NaN (Fin PLAYER_SPEED)) (Fin dt)) = NaN"
  "js_mul (js_mul NaN (Fin PLAYER_SPEED)) (Fin dt) = NaN"
  by (simp_all add: js_mul_def js_add_def)

lemma jsPlayerUpdate_x:
  assumes mv: "jsMove p = (moveX, moveZ)" and pos: "jsPosition p = (Fin x, Fin y, Fin z)"
    and dt: "0 < dt" and z: "\<bar>z\<bar> < 990"
  shows "moveX \<in> {PosInf, NegInf} \<Longrightarrow> fst (jsPosition (jsPlayerUpdate cache (Fin dt) p)) = Fin x"
    and "moveX = NaN \<Longrightarrow> fst (jsPosition (jsPlayerUpdate cache (Fin dt) p)) = NaN"
proof -
  let ?dz = "js_mul (js_mul moveZ (Fin PLAYER_SPEED)) (Fin dt)"
  let ?newZ = "js_add (Fin z) ?dz"
  {
    assume inf: "moveX \<in> {PosInf, NegInf}"
    have nx: "js_add (Fin x) (js_mul (js_mul moveX (Fin PLAYER_SPEED)) (Fin dt)) = moveX"
      using inf dt by (rule infinite_step)
    have c1: "jsPlayerCheckCollision cache moveX ?newZ" "jsPlayerCheckCollision cache moveX (Fin z)"
      using inf by (simp_all add: collision_at_infinity)
    show "fst (jsPosition (jsPlayerUpdate cache (Fin dt) p)) = Fin x"
      unfolding jsPlayerUpdate_def mv pos Let_def prod.case nx
      using c1 by (simp add: pos)
  }
  {
    assume nan: "moveX = NaN"
    have c2: "\<not> jsPlayerCheckCollision cache NaN (Fin z)" using z by (rule no_collision_at_nan)
    have dx: "js_mul (js_mul NaN (Fin PLAYER_SPEED)) (Fin dt) = NaN" by (simp add: js_mul_def)
    have nx: "js_add (Fin x) NaN = NaN" by (simp add: js_add_def)
    have ne: "\<And>a. js_neq NaN a" by (simp add: js_neq_def)
    show "fst (jsPosition (jsPlayerUpdate cache (Fin dt) p)) = NaN"
      unfolding jsPlayerUpdate_def mv pos Let_def prod.case nan dx nx
      using c2 by (simp add: ne)
  }
qed


lemma jsPlayerUpdate_z:
  assumes mv: "jsMove p = (moveX, moveZ)" and pos: "jsPosition p = (Fin x, Fin y, Fin z)"
    and dt: "0 < dt" and x: "\<bar>x\<bar> < 990"
  shows "moveZ \<in> {PosInf, NegInf} \<Longrightarrow> snd (snd (jsPosition (jsPlayerUpdate cache (Fin dt) p))) = Fin z"
    and "moveZ = NaN \<Longrightarrow> snd (snd (jsPosition (jsPlayerUpdate cache (Fin dt) p))) = NaN"
proof -
  let ?dx = "js_mul (js_mul moveX (Fin PLAYER_SPEED)) (Fin dt)"
  let ?newX = "js_add (Fin x) ?dx"
  {
    assume inf: "moveZ \<in> {PosInf, NegInf}"
    have nz: "js_add (Fin z) (js_mul (js_mul moveZ (Fin PLAYER_SPEED)) (Fin dt)) = moveZ"
      using inf dt by (rule infinite_step)
    have c1: "jsPlayerCheckCollision cache ?newX moveZ" "jsPlayerCheckCollision cache (Fin x) moveZ"
      using inf by (simp_all add: collision_at_infinity)
    show "snd (snd (jsPosition (jsPlayerUpdate cache (Fin dt) p))) = Fin z"
      unfolding jsPlayerUpdate_def mv pos Let_def prod.case nz
      using c1 by (simp add: pos)
  }
  {
    assume nan: "moveZ = NaN"
    have c2: "\<not> jsPlayerCheckCollision cache (Fin x) NaN" using x by (rule no_collision_at_nan)
    have dz: "js_mul (js_mul NaN (Fin PLAYER_SPEED)) (Fin dt) = NaN" by (simp add: js_mul_def)
    have nz: "js_add (Fin z) NaN = NaN" by (simp add: js_add_def)
    have ne: "\<And>a. js_neq NaN a" by (simp add: js_neq_def)
    show "snd (snd (jsPosition (jsPlayerUpdate cache (Fin dt) p))) = NaN"
      unfolding jsPlayerUpdate_def mv pos Let_def prod.case nan dz nz
      using c2 by (simp add: ne)
  }
qed

lemma jsPlayerCheckCollision_finite:
  "jsPlayerCheckCollision cache (Fin a) (Fin b) = playerCheckCollision cache a b"
  by (simp add: jsPlayerCheckCollision_def playerCheckCollision_def Let_def js_ge_def js_abs_def
      js_lt_def js_gt_def jsNearbyObstacles_def not_less)

lemma jsPlayerUpdate_finite:
  assumes "moveDirection client = md" "position ent = pos"
  shows "jsPosition (jsPlayerUpdate cache (Fin dt)
            \<lparr>jsMove = (Fin (mx md), Fin (mz md)),
             jsPosition = (Fin (vx pos), Fin (vy pos), Fin (vz pos)),
             jsRotation = r, jsPitch = q\<rparr>)
         = (let pos' = position (fst (playerUpdate cache dt client ent gs))
            in (Fin (vx pos'), Fin (vy pos'), Fin (vz pos')))"
  using assms
  by (simp add: jsPlayerUpdate_def playerUpdate_def playerFinalPosition_def Let_def js_neq_def
      js_mul_def js_add_def jsPlayerCheckCollision_finite jsGetHeightAt_def)


text \<open>
  Claim C4, amended. The handler stores the fields of a decoded INPUT frame as they
  are, NaN and infinities included: the move direction, the rotation and the pitch of the
  player become the decoded values. On the following tick, for a player at a finite position
  inside the boundary and a positive \<open>deltaTime\<close>, an infinite move component leaves its
  coordinate as it was, and a NaN move component makes its coordinate NaN.
\<close>

theorem input_stored_as_decoded:
  assumes dec: "decodeInput buffer = Some input"
    and pos: "jsPosition p = (Fin x, Fin y, Fin z)" and x: "\<bar>x\<bar> < 990" and z: "\<bar>z\<bar> < 990"
    and dt: "0 < dt"
  shows "jsMove (onInputFrame buffer p) = (inMoveX input, inMoveZ input) \<and>
         jsRotation (onInputFrame buffer p) = inRotation input \<and>
         jsPitch (onInputFrame buffer p) = inPitch input \<and>
         jsPosition (onInputFrame buffer p) = jsPosition p \<and>
         (inMoveX input \<in> {PosInf, NegInf} \<longrightarrow>
            fst (jsPosition (jsPlayerUpdate cache (Fin dt) (onInputFrame buffer p))) = Fin x) \<and>
         (inMoveX input = NaN \<longrightarrow>
            fst (jsPosition (jsPlayerUpdate cache (Fin dt) (onInputFrame buffer p))) = NaN) \<and>
         (inMoveZ input \<in> {PosInf, NegInf} \<longrightarrow>
            snd (snd (jsPosition (jsPlayerUpdate cache (Fin dt) (onInputFrame buffer p)))) = Fin z) \<and>
         (inMoveZ input = NaN \<longrightarrow>
            snd (snd (jsPosition (jsPlayerUpdate cache (Fin dt) (onInputFrame buffer p)))) = NaN)"
proof -
  let ?p1 = "onInputFrame buffer p"
  from dec have first: "getUint8 buffer 0 = Some 3"
    by (simp add: decodeInput_def split: if_splits)
  have p1: "?p1 = p\<lparr>jsMove := (inMoveX input, inMoveZ input), jsRotation := inRotation input,
                     jsPitch := inPitch input\<rparr>"
    by (simp add: onInputFrame_def first dec)
  have mv: "jsMove ?p1 = (inMoveX input, inMoveZ input)" and pos1: "jsPosition ?p1 = (Fin x, Fin y, Fin z)"
    by (simp_all add: p1 pos)
  note X = jsPlayerUpdate_x [OF mv pos1 dt z, of cache]
  note Z = jsPlayerUpdate_z [OF mv pos1 dt x, of cache]
  have stored: "jsMove ?p1 = (inMoveX input, inMoveZ input) \<and> jsRotation ?p1 = inRotation input \<and>
      jsPitch ?p1 = inPitch input \<and> jsPosition ?p1 = jsPosition p"
    by (simp add: p1)
  from stored X Z show ?thesis by blast
qed

theorem input_stored_as_decoded_witness:
  "decodeInput infFrame = Some \<lparr>inMoveX = PosInf, inMoveZ = NegInf, inRotation = PosInf, inPitch = NegInf\<rparr> \<and>
   jsRotation (onInputFrame infFrame restingPlayer) = PosInf \<and>
   jsPitch (onInputFrame infFrame restingPlayer) = NegInf \<and>
   fst (jsPosition (jsPlayerUpdate [] (Fin (1 / 30)) (onInputFrame infFrame restingPlayer))) = Fin 0 \<and>
   snd (snd (jsPosition (jsPlayerUpdate [] (Fin (1 / 30)) (onInputFrame infFrame restingPlayer)))) = Fin 0"
proof -
  have pos: "jsPosition restingPlayer = (Fin 0, Fin (getHeightAt 0 0), Fin 0)"
    by (simp add: restingPlayer_def)
  from input_stored_as_decoded [OF decode_infFrame pos, of "1 / 30" "[]"] decode_infFrame
  show ?thesis by simp
qed

section \<open>C7: the UPDATE frame decoded\<close>

lemma floor_log2_eq:
  assumes "0 < a" "2 powi e \<le> a" "a < 2 powi (e + 1)"
  shows "\<lfloor>log 2 a\<rfloor> = e"
proof (rule floor_unique)
  have p: "\<And>k::int. (2::real) powr (real_of_int k) = 2 powi k"
    by (simp add: powr_real_of_int' )
  show "real_of_int e \<le> log 2 a" using assms by (simp add: le_log_iff p)
  have "log 2 a < real_of_int (e + 1)" using assms by (simp add: log_less_iff p del: of_int_add)
  then show "log 2 a < real_of_int e + 1" by simp
qed

subsection \<open>Bytes\<close>

lemma unat_byte: "unat (of_nat v :: 8 word) = v mod 256"
  by (simp add: unat_of_nat)

lemma le16: "v mod 256 + 256 * (v div 256 mod 256) = v mod 65536" for v :: nat
proof -
  show ?thesis using mod_mult2_eq [of v 256 256] by simp
qed

lemma le32:
  "v mod 256 + 256 * (v div 256 mod 256) + 65536 * (v div 65536 mod 256)
     + 16777216 * (v div 16777216 mod 256) = v mod 4294967296" for v :: nat
proof -
  have a: "v mod 4294967296 = v mod 65536 + 65536 * (v div 65536 mod 65536)"
    using mod_mult2_eq [of v 65536 65536] by simp
  have b: "v div 65536 mod 65536 = v div 65536 mod 256 + 256 * (v div 65536 div 256 mod 256)"
    using le16 [of "v div 65536"] by simp
  have c: "v div 65536 div 256 = v div 16777216" by (simp add: div_mult2_eq [symmetric])
  show ?thesis using a b c le16 [of v] by simp
qed

lemma f32_body_bound: "f32_body a \<le> 2139095040"
proof -
  have "nat (min b 2139095040) \<le> 2139095040" for b :: int by simp
  then show ?thesis by (simp add: f32_body_def Let_def)
qed

lemma f32_bits_bound: "f32_bits x < 4294967296"
proof (cases x)
  case (Fin r)
  define b where "b = f32_body \<bar>r\<bar>"
  have "b \<le> 2139095040" unfolding b_def by (rule f32_body_bound)
  then have "(if r < 0 then 2 ^ 31 else 0) + b < 4294967296" by simp
  then show ?thesis unfolding b_def using Fin by (simp add: f32_bits_def del: abs_if)
qed (simp_all add: f32_bits_def)

lemma length_set [simp]:
  "length (setUint8 v) = 1" "length (setUint16 v) = 2" "length (setUint32 v) = 4"
  "length (setFloat32 x) = 4"
  by (simp_all add: setUint8_def setUint16_def setUint32_def setFloat32_def)

lemma length_encodeVector [simp]: "length (encodeVector p) = 12"
  by (simp add: encodeVector_def split_beta)

lemma length_encodeEntity [simp]: "length (encodeEntity e) = 29"
  by (simp add: encodeEntity_def)

lemma length_encodeHit [simp]: "length (encodeHit h) = 13"
  by (simp add: encodeHit_def)

lemma length_encodeStats [simp]: "length (encodeStats st) = 28"
  by (simp add: encodeStats_def)

subsection \<open>Skipping a chunk, and the chunk at the head\<close>

lemma getUint8_skip:
  assumes "length c \<le> off"
  shows "getUint8 (c @ rest) off = getUint8 rest (off - length c)"
proof -
  from assms obtain d where "off = length c + d" using le_Suc_ex by blast
  then show ?thesis by (simp add: getUint8_def nth_append)
qed

lemma getUint16_skip:
  assumes "length c \<le> off"
  shows "getUint16 (c @ rest) off = getUint16 rest (off - length c)"
proof -
  from assms obtain d where "off = length c + d" using le_Suc_ex by blast
  then show ?thesis by (simp add: getUint16_def nth_append)
qed

lemma getUint32_skip:
  assumes "length c \<le> off"
  shows "getUint32 (c @ rest) off = getUint32 rest (off - length c)"
proof -
  from assms obtain d where "off = length c + d" using le_Suc_ex by blast
  then show ?thesis by (simp add: getUint32_def nth_append)
qed

lemma getFloat32_skip:
  "length c \<le> off \<Longrightarrow> getFloat32 (c @ rest) off = getFloat32 rest (off - length c)"
  by (simp add: getFloat32_def getUint32_skip)

lemma decodeVector_skip:
  "length c \<le> off \<Longrightarrow> decodeVector (c @ rest) off = decodeVector rest (off - length c)"
  by (simp add: decodeVector_def getFloat32_skip)

lemma getUint8_head: "getUint8 (setUint8 v @ rest) 0 = Some (v mod 256)"
  by (simp add: getUint8_def setUint8_def unat_byte)

lemma getUint16_head: "getUint16 (setUint16 v @ rest) 0 = Some (v mod 65536)"
  by (simp add: getUint16_def setUint16_def unat_byte le16)

lemma getUint32_head: "getUint32 (setUint32 v @ rest) 0 = Some (v mod 4294967296)"
  using le32 [of v] by (simp add: getUint32_def setUint32_def unat_byte)

lemma getFloat32_head: "getFloat32 (setFloat32 x @ rest) 0 = Some (fround x)"
  using f32_bits_bound [of x]
  by (simp add: getFloat32_def setFloat32_def getUint32_head fround_def)

lemma decodeVector_head: "decodeVector (encodeVector p @ rest) 0 = Some (fround3 p)"
  by (simp add: decodeVector_def encodeVector_def fround3_def split_beta
      getFloat32_skip getFloat32_head)

subsection \<open>Dropping what is before the offset\<close>

lemma getUint8_drop: "getUint8 (pre @ buf) (length pre + off) = getUint8 buf off"
  by (simp add: getUint8_def nth_append)

lemma getUint16_drop: "getUint16 (pre @ buf) (length pre + off) = getUint16 buf off"
  by (simp add: getUint16_def nth_append)

lemma getUint32_drop: "getUint32 (pre @ buf) (length pre + off) = getUint32 buf off"
  by (simp add: getUint32_def nth_append)

lemma getFloat32_drop: "getFloat32 (pre @ buf) (length pre + off) = getFloat32 buf off"
  by (simp add: getFloat32_def getUint32_drop)

lemma decodeVector_drop: "decodeVector (pre @ buf) (length pre + off) = decodeVector buf off"
  by (simp add: decodeVector_def getFloat32_drop add.assoc)

lemma decodeEntity_drop: "decodeEntity (pre @ buf) (length pre + off) = decodeEntity buf off"
  by (simp add: decodeEntity_def getUint32_drop getUint16_drop getUint8_drop getFloat32_drop
      decodeVector_drop add.assoc)

lemma decodeHit_drop: "decodeHit (pre @ buf) (length pre + off) = decodeHit buf off"
  by (simp add: decodeHit_def getUint8_drop decodeVector_drop add.assoc)

lemma decodeStats_drop: "decodeStats (pre @ buf) (length pre + off) = decodeStats buf off"
  by (simp add: decodeStats_def getUint32_drop getUint16_drop getUint8_drop getFloat32_drop add.assoc)

lemmas skips = getUint8_skip getUint16_skip getUint32_skip getFloat32_skip decodeVector_skip

lemmas heads = getUint8_head getUint16_head getUint32_head getFloat32_head decodeVector_head

subsection \<open>One entity, one hit, the statistics\<close>

lemma decodeEntity_head:
  assumes "validEntity e"
  shows "decodeEntity (encodeEntity e @ rest) 0 = Some (receivedEntity e)"
  using assms
  by (simp add: decodeEntity_def encodeEntity_def validEntity_def receivedEntity_def skips heads)

lemma decodeHit_head: "decodeHit (encodeHit h @ rest) 0 = Some (receivedHit h)"
  by (simp add: decodeHit_def encodeHit_def receivedHit_def skips heads)

lemma decodeStats_head:
  assumes "validStats st"
  shows "decodeStats (encodeStats st @ rest) 0 = Some (receivedStats st)"
  using assms
  by (simp add: decodeStats_def encodeStats_def validStats_def receivedStats_def skips heads)

lemma round_even_int: "round_even (real_of_int n) = n"
  by (simp add: round_even_def)

lemma f32_body_normal:
  assumes n: "2 ^ 23 \<le> n" "n < 2 ^ 24" and j: "j \<le> 253"
  shows "f32_body (real n * 2 powi (int j - 149)) = j * 2 ^ 23 + n"
proof -
  let ?k = "int j - 149"
  let ?a = "real n * 2 powi ?k"
  have pos: "0 < ?a" using n by simp
  have lo: "2 powi (?k + 23) \<le> ?a"
  proof -
    have "(2::real) powi (?k + 23) = 2 ^ 23 * 2 powi ?k"
      using power_int_add [of "2::real" ?k 23] by simp
    also have "\<dots> \<le> real n * 2 powi ?k"
    proof (rule mult_right_mono)
      have "real (2 ^ 23) \<le> real n" using n(1) by (simp only: of_nat_le_iff)
      then show "(2::real) ^ 23 \<le> real n" by simp
    qed simp
    finally show ?thesis .
  qed
  have hi: "?a < 2 powi (?k + 23 + 1)"
  proof -
    have "real n < real (2 ^ 24)" using n(2) by (simp only: of_nat_less_iff)
    then have "real n < 2 ^ 24" by simp
    then have "real n * 2 powi ?k < 2 ^ 24 * 2 powi ?k" by (intro mult_strict_right_mono) simp_all
    also have "\<dots> = 2 powi (?k + 23 + 1)"
      using power_int_add [of "2::real" ?k 24] by simp
    finally show ?thesis .
  qed
  have e: "\<lfloor>log 2 ?a\<rfloor> = ?k + 23" using pos lo hi by (rule floor_log2_eq)
  have q: "max (?k + 23) (- 126) = ?k + 23" by simp
  have d: "?a / 2 powi (?k + 23 - 23) = real_of_int (int n)" by simp
  have r: "round_even (?a / 2 powi (?k + 23 - 23)) = int n" unfolding d by (rule round_even_int)
  have "(?k + 23 + 126) * 2 ^ 23 + int n = int (j * 2 ^ 23 + n)" by simp
  moreover have "j * 2 ^ 23 + n \<le> 2139095040"
  proof -
    have "j * 2 ^ 23 \<le> 253 * 2 ^ 23" using j by (intro mult_right_mono) simp_all
    with n(2) show ?thesis by simp
  qed
  ultimately have "nat (min ((?k + 23 + 126) * 2 ^ 23 + int n) 0x7F800000) = j * 2 ^ 23 + n"
    by simp
  then show ?thesis unfolding f32_body_def Let_def e q r .
qed

lemma f32_body_subnormal:
  assumes n: "0 < n" "n < 2 ^ 23"
  shows "f32_body (real n * 2 powi (- 149)) = n"
proof -
  let ?a = "real n * 2 powi (- 149)"
  have pos: "0 < ?a" using n by simp
  have "real n < real (2 ^ 23)" using n(2) by (simp only: of_nat_less_iff)
  then have "real n < 2 ^ 23" by simp
  then have "?a < 2 ^ 23 * 2 powi (- 149)" by (intro mult_strict_right_mono) simp_all
  also have "\<dots> = 2 powi (- 126)" using power_int_add [of "2::real" "- 149" 23] by simp
  finally have hi: "?a < 2 powi (- 126)" .
  have "log 2 ?a < real_of_int (- 126)"
    using pos hi by (simp add: log_less_iff powr_real_of_int' del: of_int_minus)
  then have "\<lfloor>log 2 ?a\<rfloor> < - 126" by (simp add: floor_less_iff)
  then have q: "max \<lfloor>log 2 ?a\<rfloor> (- 126) = - 126" by simp
  have d: "?a / 2 powi (- 126 - 23) = real_of_int (int n)" by simp
  have r: "round_even (?a / 2 powi (- 126 - 23)) = int n" unfolding d by (rule round_even_int)
  have "n \<le> 2139095040" using n(2) by simp
  then have "nat (min ((- 126 + 126) * 2 ^ 23 + int n) 0x7F800000) = n" by simp
  then show ?thesis unfolding f32_body_def Let_def q r .
qed

lemma f32_val_normal:
  assumes n: "2 ^ 23 \<le> n" "n < 2 ^ 24" and j: "j \<le> 253"
  shows "f32_val (j * 2 ^ 23 + n) = Fin (real n * 2 powi (int j - 149))"
proof -
  define m where "m = n - 2 ^ 23"
  have m: "n = 2 ^ 23 + m" "m < 2 ^ 23" using n by (simp_all add: m_def)
  have w: "j * 2 ^ 23 + n = (j + 1) * 2 ^ 23 + m" using m(1) by simp
  have e: "(j * 2 ^ 23 + n) div 2 ^ 23 = j + 1" unfolding w using m(2) by simp
  have lt: "j * 2 ^ 23 + n < 2 ^ 31"
  proof -
    have "j * 2 ^ 23 \<le> 253 * 2 ^ 23" using j by (intro mult_right_mono) simp_all
    with n(2) show ?thesis by simp
  qed
  have s: "(j * 2 ^ 23 + n) div 2 ^ 31 = 0" using lt by simp
  have r: "(j * 2 ^ 23 + n) mod 2 ^ 23 = m"
  proof -
    have "(m + (j + 1) * 2 ^ 23) mod 2 ^ 23 = m mod 2 ^ 23" by (rule mod_mult_self1)
    moreover have "j * 2 ^ 23 + n = m + (j + 1) * 2 ^ 23" using m(1) by simp
    ultimately show ?thesis using m(2) by simp
  qed
  have em: "(j + 1) mod 256 = j + 1" using j by simp
  have p: "int (j + 1) - 150 = int j - 149" by simp
  show ?thesis
    unfolding f32_val_def Let_def s e r em p using j m(1) by simp
qed

lemma f32_val_subnormal:
  assumes "n < 2 ^ 23"
  shows "f32_val n = Fin (real n * 2 powi (- 149))"
proof -
  have "n div 2 ^ 31 = 0" "n div 2 ^ 23 = 0" "n mod 2 ^ 23 = n" using assms by simp_all
  then show ?thesis unfolding f32_val_def Let_def by simp
qed

lemma f32_val_sign:
  assumes "w < 2 ^ 31" "f32_val w = Fin r"
  shows "f32_val (2 ^ 31 + w) = Fin (- r)"
proof -
  have d: "(2 ^ 31 + w) div 2 ^ 31 = 1" "w div 2 ^ 31 = 0" using assms(1) by simp_all
  have e: "(2 ^ 31 + w) div 2 ^ 23 mod 256 = w div 2 ^ 23 mod 256"
  proof -
    have "(w + 256 * 2 ^ 23) div 2 ^ 23 = 256 + w div 2 ^ 23"
      using div_mult_self1 [of "2 ^ 23 :: nat" w 256] by simp
    moreover have "2 ^ 31 + w = w + 256 * 2 ^ 23" by simp
    ultimately have "(2 ^ 31 + w) div 2 ^ 23 = 256 + w div 2 ^ 23" by simp
    then show ?thesis by simp
  qed
  have m: "(2 ^ 31 + w) mod 2 ^ 23 = w mod 2 ^ 23"
  proof -
    have "(w + 256 * 2 ^ 23) mod 2 ^ 23 = w mod 2 ^ 23" by (rule mod_mult_self1)
    moreover have "2 ^ 31 + w = w + 256 * 2 ^ 23" by simp
    ultimately show ?thesis by (simp add: add.commute)
  qed
  from assms(2) show ?thesis
    unfolding f32_val_def Let_def d e m by (auto split: if_splits)
qed

lemma fround_float32:
  assumes n: "n < 2 ^ 24" and j: "j \<le> 253" and norm: "j = 0 \<or> 2 ^ 23 \<le> n"
    and r: "\<bar>r\<bar> = real n * 2 powi (int j - 149)"
  shows "fround (Fin r) = Fin r"
proof (cases "r = 0")
  case True
  then show ?thesis by (simp add: fround_def f32_bits_def f32_val_def)
next
  case False
  with r have n0: "0 < n" by (cases "n = 0") simp_all
  have "\<exists>b. f32_body \<bar>r\<bar> = b \<and> b < 2 ^ 31 \<and> f32_val b = Fin \<bar>r\<bar>"
  proof (cases "2 ^ 23 \<le> n")
    case True
    have "j * 2 ^ 23 \<le> 253 * 2 ^ 23" using j by (intro mult_right_mono) simp_all
    with n have "j * 2 ^ 23 + n < 2 ^ 31" by simp
    then show ?thesis
      unfolding r using f32_body_normal [OF True n j] f32_val_normal [OF True n j] by simp
  next
    case False
    then have small: "n < 2 ^ 23" by simp
    with norm have j0: "j = 0" by simp
    have "n < 2 ^ 31" using small by simp
    then show ?thesis
      unfolding r j0 using f32_body_subnormal [OF n0 small] f32_val_subnormal [OF small] by simp
  qed
  then obtain b where b: "f32_body \<bar>r\<bar> = b" "b < 2 ^ 31" "f32_val b = Fin \<bar>r\<bar>" by blast
  show ?thesis
  proof (cases "r < 0")
    case True
    then have "f32_bits (Fin r) = 2 ^ 31 + b" using b(1) by (simp add: f32_bits_def del: abs_if)
    moreover have "f32_val (2 ^ 31 + b) = Fin (- \<bar>r\<bar>)" using b(2,3) by (rule f32_val_sign)
    ultimately show ?thesis using True by (simp add: fround_def)
  next
    case pos: False
    with False have "f32_bits (Fin r) = b" using b(1) by (simp add: f32_bits_def del: abs_if)
    then show ?thesis using pos b(3) by (simp add: fround_def)
  qed
qed

subsection \<open>The three lists\<close>

lemma length_concat_entities: "length (concat (map encodeEntity es)) = 29 * length es"
  by (induction es) simp_all

lemma length_concat_bullets: "length (concat (map encodeVector bs)) = 12 * length bs"
  by (induction bs) simp_all

lemma length_concat_hits: "length (concat (map encodeHit hs)) = 13 * length hs"
  by (induction hs) simp_all

lemma decodeEntities_chunk:
  assumes "list_all validEntity es"
  shows "decodeEntities (pre @ concat (map encodeEntity es) @ post) (length pre) (length es)
           = Some (map receivedEntity es)"
  using assms
proof (induction es arbitrary: pre)
  case Nil
  show ?case by simp
next
  case (Cons e es)
  from Cons.prems have v: "validEntity e" and vs: "list_all validEntity es" by simp_all
  let ?rest = "concat (map encodeEntity es) @ post"
  have one: "decodeEntity (pre @ encodeEntity e @ ?rest) (length pre) = Some (receivedEntity e)"
    using decodeEntity_drop [of pre "encodeEntity e @ ?rest" 0] decodeEntity_head [OF v, of ?rest]
    by simp
  have more: "decodeEntities ((pre @ encodeEntity e) @ ?rest) (length (pre @ encodeEntity e)) (length es)
      = Some (map receivedEntity es)"
    using vs by (rule Cons.IH)
  then have more': "decodeEntities (pre @ encodeEntity e @ ?rest) (length pre + 29) (length es)
      = Some (map receivedEntity es)" by simp
  show ?case using one more' by simp
qed

lemma decodeBullets_chunk:
  "decodeBullets (pre @ concat (map encodeVector bs) @ post) (length pre) (length bs)
     = Some (map fround3 bs)"
proof (induction bs arbitrary: pre)
  case Nil
  show ?case by simp
next
  case (Cons b bs)
  let ?rest = "concat (map encodeVector bs) @ post"
  have one: "decodeVector (pre @ encodeVector b @ ?rest) (length pre) = Some (fround3 b)"
    using decodeVector_drop [of pre "encodeVector b @ ?rest" 0] decodeVector_head [of b ?rest]
    by simp
  have "decodeBullets ((pre @ encodeVector b) @ ?rest) (length (pre @ encodeVector b)) (length bs)
      = Some (map fround3 bs)"
    by (rule Cons.IH)
  then have more': "decodeBullets (pre @ encodeVector b @ ?rest) (length pre + 12) (length bs)
      = Some (map fround3 bs)" by simp
  show ?case using one more' by simp
qed

lemma decodeHits_chunk:
  "decodeHits (pre @ concat (map encodeHit hs) @ post) (length pre) (length hs)
     = Some (map receivedHit hs)"
proof (induction hs arbitrary: pre)
  case Nil
  show ?case by simp
next
  case (Cons h hs)
  let ?rest = "concat (map encodeHit hs) @ post"
  have one: "decodeHit (pre @ encodeHit h @ ?rest) (length pre) = Some (receivedHit h)"
    using decodeHit_drop [of pre "encodeHit h @ ?rest" 0] decodeHit_head [of h ?rest]
    by simp
  have "decodeHits ((pre @ encodeHit h) @ ?rest) (length (pre @ encodeHit h)) (length hs)
      = Some (map receivedHit hs)"
    by (rule Cons.IH)
  then have more': "decodeHits (pre @ encodeHit h @ ?rest) (length pre + 13) (length hs)
      = Some (map receivedHit hs)" by simp
  show ?case using one more' by simp
qed

subsection \<open>The whole frame\<close>

lemma getUint16_at:
  assumes "buf = P @ setUint16 v @ R" "length P = k" "v < 65536"
  shows "getUint16 buf k = Some v"
  using getUint16_drop [of P "setUint16 v @ R" 0] assms by (simp add: getUint16_head)

lemma decodeStats_at:
  assumes "buf = P @ encodeStats st" "length P = k" "validStats st"
  shows "decodeStats buf k = Some (receivedStats st)"
  using decodeStats_drop [of P "encodeStats st" 0] decodeStats_head [OF assms(3), of "[]"] assms(1,2)
  by simp

lemma decodeEntities_at:
  assumes "buf = P @ concat (map encodeEntity es) @ R" "length P = k" "list_all validEntity es"
  shows "decodeEntities buf k (length es) = Some (map receivedEntity es)"
  using decodeEntities_chunk [OF assms(3), of P R] assms(1,2) by simp

lemma decodeBullets_at:
  assumes "buf = P @ concat (map encodeVector bs) @ R" "length P = k"
  shows "decodeBullets buf k (length bs) = Some (map fround3 bs)"
  using decodeBullets_chunk [of P bs R] assms by simp

lemma decodeHits_at:
  assumes "buf = P @ concat (map encodeHit hs) @ R" "length P = k"
  shows "decodeHits buf k (length hs) = Some (map receivedHit hs)"
  using decodeHits_chunk [of P hs R] assms by simp

lemma decode_encode:
  assumes "validUpdate m"
  shows "decodeUpdate (encodeUpdate m) = Some (received m)"
proof -
  let ?es = "umEntities m" and ?bs = "umBullets m" and ?hs = "umHits m"
  let ?n = "length ?es" and ?nb = "length ?bs" and ?nh = "length ?hs"
  from assms have n: "?n < 65536" and nb: "?nb < 65536" and nh: "?nh < 65536"
    and ves: "list_all validEntity ?es" and vst: "validStats (umStats m)"
    by (simp_all add: validUpdate_def)
  define A where "A = setUint8 2 @ encodeVector (umMyPosition m) @ setUint16 ?n"
  define E where "E = concat (map encodeEntity ?es)"
  define B where "B = concat (map encodeVector ?bs)"
  define H where "H = concat (map encodeHit ?hs)"
  define S where "S = encodeStats (umStats m)"
  define buf where "buf = encodeUpdate m"
  have buf: "buf = A @ E @ setUint16 ?nb @ B @ setUint16 ?nh @ H @ S"
    by (simp add: buf_def encodeUpdate_def A_def E_def B_def H_def S_def)
  have lA: "length A = 15" by (simp add: A_def)
  have lE: "length E = 29 * ?n" by (simp add: E_def length_concat_entities)
  have lB: "length B = 12 * ?nb" by (simp add: B_def length_concat_bullets)
  have lH: "length H = 13 * ?nh" by (simp add: H_def length_concat_hits)
  have f1: "decodeVector buf 1 = Some (fround3 (umMyPosition m))"
    unfolding buf A_def by (simp add: skips heads)
  have f2: "getUint16 buf 13 = Some ?n"
    unfolding buf A_def using n by (simp add: skips heads)
  have f3: "decodeEntities buf 15 ?n = Some (map receivedEntity ?es)"
    by (rule decodeEntities_at [where P = A and R = "setUint16 ?nb @ B @ setUint16 ?nh @ H @ S"])
      (simp_all add: buf E_def lA ves)
  have f4: "getUint16 buf (15 + 29 * ?n) = Some ?nb"
    by (rule getUint16_at [where P = "A @ E" and R = "B @ setUint16 ?nh @ H @ S"])
      (simp_all add: buf lA lE nb)
  have f5: "decodeBullets buf (15 + 29 * ?n + 2) ?nb = Some (map fround3 ?bs)"
    by (rule decodeBullets_at [where P = "A @ E @ setUint16 ?nb" and R = "setUint16 ?nh @ H @ S"])
      (simp_all add: buf B_def lA lE)
  have f6: "getUint16 buf (15 + 29 * ?n + 2 + 12 * ?nb) = Some ?nh"
    by (rule getUint16_at [where P = "A @ E @ setUint16 ?nb @ B" and R = "H @ S"])
      (simp_all add: buf lA lE lB nh)
  have f7: "decodeHits buf (15 + 29 * ?n + 2 + 12 * ?nb + 2) ?nh = Some (map receivedHit ?hs)"
    by (rule decodeHits_at [where P = "A @ E @ setUint16 ?nb @ B @ setUint16 ?nh" and R = S])
      (simp_all add: buf H_def lA lE lB)
  have f8: "decodeStats buf (15 + 29 * ?n + 2 + 12 * ?nb + 2 + 13 * ?nh) = Some (receivedStats (umStats m))"
    by (rule decodeStats_at [where P = "A @ E @ setUint16 ?nb @ B @ setUint16 ?nh @ H"])
      (simp_all add: buf S_def lA lE lB lH vst)
  have "decodeUpdate buf = Some (received m)"
    unfolding decodeUpdate_def Let_def f1 f2 f3 f4 f5 f6 f7 f8 option.case received_def ..
  then show ?thesis by (simp add: buf_def)
qed

lemma fround_zero: "fround (Fin 0) = Fin 0"
  by (simp add: fround_def f32_bits_def f32_val_def)

lemma fround_one: "fround (Fin 1) = Fin 1"
proof -
  have "\<lfloor>log 2 (1::real)\<rfloor> = 0" by simp
  then have "f32_bits (Fin 1) = 0x3F800000"
    by (simp add: f32_bits_def f32_body_def Let_def round_even_def)
  then show ?thesis by (simp add: fround_def f32_val_def Let_def)
qed

lemma fround_far: "fround (Fin 16777217) = Fin 16777216"
proof -
  have "\<lfloor>log 2 (16777217::real)\<rfloor> = 24" by (rule floor_log2_eq) simp_all
  then have "f32_bits (Fin 16777217) = 0x4B800000"
    by (simp add: f32_bits_def f32_body_def Let_def round_even_def)
  then show ?thesis by (simp add: fround_def f32_val_def Let_def)
qed

lemma fround_special: "fround NaN = NaN" "fround PosInf = PosInf" "fround NegInf = NegInf"
  by (simp_all add: fround_def f32_bits_def f32_val_def)

lemma valid_farMessage: "validUpdate farMessage"
  by (simp add: validUpdate_def farMessage_def validEntity_def validStats_def quietStats_def)

lemma valid_nearMessage: "validUpdate nearMessage"
  by (simp add: validUpdate_def nearMessage_def validEntity_def validStats_def quietStats_def)

text \<open>
  Claim C7 says that decoding an encoded UPDATE message reproduces the message, for any
  finite \<open>myPosition\<close>. It fails on the code: the message with \<open>myPosition.x = 16777217\<close>
  and one bot of id 7 comes back with \<open>myPosition.x = 16777216\<close>, and the bot comes back
  with the string \<open>7\<close> as its id (and a name the message never had).
\<close>

theorem update_roundtrip_counterexample:
  "umMyPosition farMessage = (Fin 16777217, Fin 0, Fin 0) \<and>
   map_option duMyPosition (decodeUpdate (encodeUpdate farMessage)) = Some (Fin 16777216, Fin 0, Fin 0) \<and>
   map weId (umEntities farMessage) = [7] \<and>
   map_option (map (\<lambda>e. (ceId e, ceName e)) \<circ> duEntities) (decodeUpdate (encodeUpdate farMessage))
     = Some [(''7'', ''Bot 7'')]"
  unfolding decode_encode [OF valid_farMessage]
  by (simp add: farMessage_def received_def fround3_def fround_far fround_zero receivedEntity_def
      toString.simps)

text \<open>
  Claim C7, amended. For every UPDATE message whose lists have fewer than 65536 elements
  and whose integer fields fit their width (ids, totalEntities and totalObstacles below
  2^32; hp, maxHp, connectedPlayers and visibleEntities below 2^16; tickRate below 2^8),
  decoding the encoded frame succeeds and gives the message as the client holds it: every
  float field rounded to float32, every entity's id as its decimal string with the name
  \<open>Player id\<close> or \<open>Bot id\<close> added, and everything else as it was; also when the lists
  are empty. The rounding keeps NaN, the infinities and every binary32 number (a
  significand below 2^24 times a power of two from 2^-149 to 2^104, normalised).
\<close>

theorem update_roundtrip_rounded:
  assumes "validUpdate m"
  shows "decodeUpdate (encodeUpdate m) = Some (received m) \<and>
         fround NaN = NaN \<and> fround PosInf = PosInf \<and> fround NegInf = NegInf \<and>
         (\<forall>n j r. n < 2 ^ 24 \<and> j \<le> 253 \<and> (j = 0 \<or> 2 ^ 23 \<le> n)
              \<and> \<bar>r\<bar> = real n * 2 powi (int j - 149)
            \<longrightarrow> fround (Fin r) = Fin r)"
  using decode_encode [OF assms] fround_special fround_float32 by blast

theorem update_roundtrip_rounded_witness:
  "validUpdate nearMessage \<and>
   decodeUpdate (encodeUpdate nearMessage)
     = Some \<lparr>duMyPosition = (Fin 1, Fin 0, Fin 0),
             duEntities = [\<lparr>ceId = ''1000'', ceName = ''Player 1000'', cePosition = (Fin 0, Fin 0, Fin 1),
                            ceRotation = Fin 0, cePitch = Fin 0, ceHp = 80, ceMaxHp = 100,
                            ceIsPlayer = True\<rparr>],
             duBullets = [(Fin 0, Fin 1, Fin 0)],
             duHits = [\<lparr>whPosition = (Fin 1, Fin 1, Fin 0), whHitEntity = True\<rparr>],
             duStats = quietStats\<rparr>"
proof -
  have "received nearMessage
     = \<lparr>duMyPosition = (Fin 1, Fin 0, Fin 0),
             duEntities = [\<lparr>ceId = ''1000'', ceName = ''Player 1000'', cePosition = (Fin 0, Fin 0, Fin 1),
                            ceRotation = Fin 0, cePitch = Fin 0, ceHp = 80, ceMaxHp = 100,
                            ceIsPlayer = True\<rparr>],
             duBullets = [(Fin 0, Fin 1, Fin 0)],
             duHits = [\<lparr>whPosition = (Fin 1, Fin 1, Fin 0), whHitEntity = True\<rparr>],
             duStats = quietStats\<rparr>"
    by (simp add: nearMessage_def received_def fround3_def fround_one fround_zero receivedEntity_def
        receivedHit_def receivedStats_def quietStats_def toString.simps)
  with update_roundtrip_rounded [OF valid_nearMessage] valid_nearMessage show ?thesis by simp
qed

end
